theory Spec2Isabelle
  imports Main
begin

section \<open>The metadata store\<close>

text \<open>
  The backend keeps five mongoose collections. Only \<open>Models/Note.js\<close> is part of the
  sources; the other four schemas are read off the routes that build and query their
  documents. An ObjectId is an opaque handle, a blob a list of bytes.
\<close>

type_synonym oid = nat
type_synonym bytes = "nat list"

text \<open>
  Modelled from the spec: the Regulation schema (\<open>Models/Regulation.js\<close> is absent),
  \<open>{id, name, numberOfSemesters}\<close>, the fields \<open>POST /regulations\<close> stores.
\<close>

record regulation_doc =
  r_id :: oid
  r_name :: string
  numberOfSemesters :: nat

text \<open>
  Modelled from the spec: the Branch schema (\<open>Models/Branch.js\<close> is absent),
  \<open>{id, name, code, regulation}\<close>, the fields \<open>POST /branches\<close> stores.
\<close>

record branch_doc =
  b_id :: oid
  b_name :: string
  b_code :: string
  b_regulation :: oid

text \<open>
  Modelled from the spec: the Subject schema (\<open>Models/Subject.js\<close> is absent),
  \<open>{id, name, code, branch, semester}\<close>, the fields \<open>POST /subjects\<close> stores.
\<close>

record subject_doc =
  s_id :: oid
  s_name :: string
  s_code :: string
  s_branch :: oid
  s_semester :: string

text \<open>\<open>Models/Note.js\<close>: the note schema, field for field.\<close>

record note_doc =
  n_id :: oid
  title :: string
  n_regulation :: oid
  n_subject :: oid
  n_branch :: oid
  n_semester :: string
  fileKey :: string
  uploadedBy :: oid
  n_createdAt :: nat

text \<open>
  Modelled from the spec: the Faculty schema (\<open>Models/Faculty.js\<close> is absent),
  \<open>{id, name, email, employeeId, designation, passwordHash, uploadedNotes}\<close>. The
  routes call the hash field \<open>password\<close> and sort the collection by \<open>createdAt\<close>.
\<close>

record faculty_doc =
  f_id :: oid
  f_name :: string
  email :: string
  password :: string
  employeeId :: string
  designation :: string
  uploadedNotes :: "oid list"
  f_createdAt :: nat

text \<open>A collection is the list of its documents, in the store's natural order.\<close>

record db =
  regulationDocs :: "regulation_doc list"
  branchDocs :: "branch_doc list"
  subjectDocs :: "subject_doc list"
  noteDocs :: "note_doc list"
  facultyDocs :: "faculty_doc list"

text \<open>
  What a request can reach: the committed metadata and the bucket, a map from
  object key to content.
\<close>

record world =
  store :: db
  blobs :: "string \<Rightarrow> bytes option"

section \<open>Collaborators and failures\<close>

datatype model = Regulation | Branch | Subject | Note | Faculty

text \<open>The three equality filters of the cascade routes: \<open>{regulation: id}\<close>,
  \<open>{branch: id}\<close>, \<open>{subject: id}\<close>.\<close>

datatype query = ByRegulation oid | ByBranch oid | BySubject oid

text \<open>Every awaited database call of the routes; any of them may reject.\<close>

datatype db_op =
    FindById model oid
  | Find model query
  | DeleteMany model query
  | FindByIdAndDelete model oid
  | CommitTransaction
  | FindNotesIn "oid list"
  | PullUploadedNote oid oid
  | DeleteOne oid
  | FindAll model
  | FindOneByEmail string
  | FindOneByEmployeeId string
  | Save model oid

text \<open>
  The environment of one request. \<open>castId\<close> is mongoose's
  \<open>ObjectId.isValid\<close> together with the cast of a valid string (\<open>None\<close>: not valid);
  \<open>db_fails\<close> and \<open>s3_fails\<close> say which database calls and which
  \<open>deleteObject\<close> calls reject; \<open>fetch_fails\<close> says for which keys
  \<open>getDownloadURL\<close>, \<open>fetch\<close> or \<open>arrayBuffer\<close> rejects, and
  \<open>error_body\<close> is the body S3 answers for a key it does not hold (the route
  never looks at the response status). \<open>bcrypt_hash\<close>, \<open>newObjectId\<close> and
  \<open>now\<close> are bcryptjs, the id of a new document and the clock.
\<close>

record env =
  castId :: "string \<Rightarrow> oid option"
  db_fails :: "db_op \<Rightarrow> bool"
  s3_fails :: "string \<Rightarrow> bool"
  fetch_fails :: "string \<Rightarrow> bool"
  error_body :: "string \<Rightarrow> bytes"
  bcrypt_hash :: "string \<Rightarrow> string"
  newObjectId :: oid
  now :: nat

section \<open>Responses and observable effects\<close>

datatype jvalue = JId oid | JStr string | JNum nat | JIds "oid list"

type_synonym document = "(string \<times> jvalue) list"
type_synonym archive = "(string \<times> bytes) list"

datatype body =
    Message string
  | Document document
  | Documents "document list"
  | ZipBuffer archive

text \<open>
  What the client gets from a handler: the answer it sent, or nothing, when the handler's
  promise rejected before it sent one. The status of no answer is 0, a code no route
  sends.
\<close>

datatype response = Response nat body | Unanswered

fun status :: "response \<Rightarrow> nat" where
  "status (Response c b) = c"
| "status Unanswered = 0"

text \<open>
  What one request does to its collaborators, in the order it does it: a
  \<open>deleteObject\<close> sent to the bucket, a document removed from a collection (inside a
  transaction: from the session's view of it), the commit or the abort of the session's
  transaction.
\<close>

datatype event = DeleteObject string | Removed model oid | Committed | Aborted

record reply =
  response :: response
  after :: world
  events :: "event list"

text \<open>
  The driver's record of the session's transaction. \<open>commitTransaction\<close> moves it to
  \<open>CommitCalled\<close> whether or not the commit goes through, and from there the driver
  refuses \<open>abortTransaction\<close>.
\<close>

datatype transaction = NoTransaction | InProgress | CommitCalled | AbortCalled

text \<open>
  The state of one running handler: the committed metadata, the view of the session's
  transaction (it reads its own writes), the bucket, the events so far and the state of
  the transaction.
\<close>

record run =
  committed :: db
  work :: db
  objects :: "string \<Rightarrow> bytes option"
  issued :: "event list"
  txn :: transaction

datatype outcome = Done run | Thrown run

definition andThen :: "outcome \<Rightarrow> (run \<Rightarrow> outcome) \<Rightarrow> outcome" where
  "andThen m f = (case m of Done s \<Rightarrow> f s | Thrown s \<Rightarrow> Thrown s)"

fun state_of :: "outcome \<Rightarrow> run" where
  "state_of (Done s) = s"
| "state_of (Thrown s) = s"

text \<open>
  \<open>mongoose.startSession()\<close> and \<open>session.startTransaction()\<close>. Both stand before the
  \<open>try\<close> block and are taken to succeed.
\<close>

definition startTransaction :: "world \<Rightarrow> run" where
  "startTransaction w =
     \<lparr>committed = store w, work = store w, objects = blobs w, issued = [], txn = InProgress\<rparr>"

text \<open>
  \<open>session.commitTransaction()\<close>. A commit that is rejected applies nothing, and the
  driver has noted the call either way.
\<close>

definition commitTransaction :: "env \<Rightarrow> run \<Rightarrow> outcome" where
  "commitTransaction e s =
     (if db_fails e CommitTransaction then Thrown (s\<lparr>txn := CommitCalled\<rparr>)
      else Done (s\<lparr>committed := work s, issued := issued s @ [Committed], txn := CommitCalled\<rparr>))"

text \<open>
  \<open>session.abortTransaction()\<close>. The driver aborts a transaction in progress, and what
  the server answers to the abort it ignores; outside one (after \<open>commitTransaction\<close>
  was called, after an earlier abort) the call rejects and nothing is aborted.
\<close>

definition abortTransaction :: "run \<Rightarrow> outcome" where
  "abortTransaction s =
     (if txn s = InProgress
      then Done (s\<lparr>work := committed s, issued := issued s @ [Aborted], txn := AbortCalled\<rparr>)
      else Thrown s)"

definition send :: "response \<Rightarrow> run \<Rightarrow> reply" where
  "send r s = \<lparr>response = r, after = \<lparr>store = committed s, blobs = objects s\<rparr>, events = issued s\<rparr>"

text \<open>A handler whose promise rejects: no answer is sent, what it did stays done.\<close>

definition reject :: "run \<Rightarrow> reply" where
  "reject s = \<lparr>response = Unanswered, after = \<lparr>store = committed s, blobs = objects s\<rparr>,
                events = issued s\<rparr>"

text \<open>
  The \<open>catch\<close> block of a cascade route: \<open>await session.abortTransaction()\<close>, then the
  answer 500. The block has no \<open>try\<close> of its own, so when the abort rejects the handler
  rejects with it and the answer is never sent.
\<close>

definition catch :: "string \<Rightarrow> run \<Rightarrow> reply" where
  "catch msg s =
     (case abortTransaction s of
        Done s' \<Rightarrow> send (Response 500 (Message msg)) s'
      | Thrown s' \<Rightarrow> reject s')"

definition await_db :: "env \<Rightarrow> db_op \<Rightarrow> run \<Rightarrow> outcome" where
  "await_db e op s = (if db_fails e op then Thrown s else Done s)"

section \<open>\<open>utils/s3.js\<close>\<close>

text \<open>
  \<open>deleteS3Object\<close> (\<open>deleteFile\<close> is its alias): the request is sent either way;
  when it does not reject the key is gone.
\<close>

definition deleteS3Object :: "env \<Rightarrow> string \<Rightarrow> run \<Rightarrow> outcome" where
  "deleteS3Object e key s =
     (if s3_fails e key then Thrown (s\<lparr>issued := issued s @ [DeleteObject key]\<rparr>)
      else Done (s\<lparr>objects := (objects s)(key := None), issued := issued s @ [DeleteObject key]\<rparr>))"

definition deleteFile :: "env \<Rightarrow> string \<Rightarrow> run \<Rightarrow> outcome" where
  "deleteFile = deleteS3Object"

section \<open>The cascade routes of \<open>routes/admin.js\<close>\<close>

fun note_matches :: "query \<Rightarrow> note_doc \<Rightarrow> bool" where
  "note_matches (ByRegulation i) n = (n_regulation n = i)"
| "note_matches (ByBranch i) n = (n_branch n = i)"
| "note_matches (BySubject i) n = (n_subject n = i)"

fun remove_first :: "('a \<Rightarrow> bool) \<Rightarrow> 'a list \<Rightarrow> 'a list" where
  "remove_first p [] = []"
| "remove_first p (x # xs) = (if p x then xs else x # remove_first p xs)"

text \<open>\<open>for (const note of notes) await deleteFile(note.fileKey)\<close>\<close>

fun delete_files :: "env \<Rightarrow> note_doc list \<Rightarrow> run \<Rightarrow> outcome" where
  "delete_files e [] s = Done s"
| "delete_files e (n # ns) s = andThen (deleteFile e (fileKey n) s) (delete_files e ns)"

text \<open>\<open>Note.deleteMany(q).session(session)\<close>\<close>

definition Note_deleteMany :: "env \<Rightarrow> query \<Rightarrow> run \<Rightarrow> outcome" where
  "Note_deleteMany e q s =
     (if db_fails e (DeleteMany Note q) then Thrown s
      else Done (s\<lparr>work := (work s)\<lparr>noteDocs := filter (\<lambda>n. \<not> note_matches q n) (noteDocs (work s))\<rparr>,
                   issued := issued s @ map (\<lambda>n. Removed Note (n_id n))
                                           (filter (note_matches q) (noteDocs (work s)))\<rparr>))"

text \<open>
  The three lines every cascade route repeats for a filter \<open>q\<close>:
  \<open>Note.find(q)\<close>, the loop of \<open>deleteFile\<close>, \<open>Note.deleteMany(q)\<close>.
\<close>

definition purge_notes :: "env \<Rightarrow> query \<Rightarrow> run \<Rightarrow> outcome" where
  "purge_notes e q s =
     andThen (await_db e (Find Note q) s) (\<lambda>s1.
     andThen (delete_files e (filter (note_matches q) (noteDocs (work s1))) s1)
       (Note_deleteMany e q))"

text \<open>\<open>Subject.deleteMany({ branch: b }).session(session)\<close>\<close>

definition Subject_deleteMany :: "env \<Rightarrow> oid \<Rightarrow> run \<Rightarrow> outcome" where
  "Subject_deleteMany e b s =
     (if db_fails e (DeleteMany Subject (ByBranch b)) then Thrown s
      else Done (s\<lparr>work := (work s)\<lparr>subjectDocs := filter (\<lambda>x. s_branch x \<noteq> b) (subjectDocs (work s))\<rparr>,
                   issued := issued s @ map (\<lambda>x. Removed Subject (s_id x))
                                           (filter (\<lambda>x. s_branch x = b) (subjectDocs (work s)))\<rparr>))"

text \<open>\<open>Branch.deleteMany({ regulation: r }).session(session)\<close>\<close>

definition Branch_deleteMany :: "env \<Rightarrow> oid \<Rightarrow> run \<Rightarrow> outcome" where
  "Branch_deleteMany e r s =
     (if db_fails e (DeleteMany Branch (ByRegulation r)) then Thrown s
      else Done (s\<lparr>work := (work s)\<lparr>branchDocs := filter (\<lambda>x. b_regulation x \<noteq> r) (branchDocs (work s))\<rparr>,
                   issued := issued s @ map (\<lambda>x. Removed Branch (b_id x))
                                           (filter (\<lambda>x. b_regulation x = r) (branchDocs (work s)))\<rparr>))"

text \<open>\<open>findByIdAndDelete(id).session(session)\<close> on each of the three root models.\<close>

definition Regulation_findByIdAndDelete :: "env \<Rightarrow> oid \<Rightarrow> run \<Rightarrow> outcome" where
  "Regulation_findByIdAndDelete e i s =
     (if db_fails e (FindByIdAndDelete Regulation i) then Thrown s
      else Done (s\<lparr>work := (work s)\<lparr>regulationDocs := remove_first (\<lambda>x. r_id x = i) (regulationDocs (work s))\<rparr>,
                   issued := issued s @ (if \<exists>x \<in> set (regulationDocs (work s)). r_id x = i
                                         then [Removed Regulation i] else [])\<rparr>))"

definition Branch_findByIdAndDelete :: "env \<Rightarrow> oid \<Rightarrow> run \<Rightarrow> outcome" where
  "Branch_findByIdAndDelete e i s =
     (if db_fails e (FindByIdAndDelete Branch i) then Thrown s
      else Done (s\<lparr>work := (work s)\<lparr>branchDocs := remove_first (\<lambda>x. b_id x = i) (branchDocs (work s))\<rparr>,
                   issued := issued s @ (if \<exists>x \<in> set (branchDocs (work s)). b_id x = i
                                         then [Removed Branch i] else [])\<rparr>))"

definition Subject_findByIdAndDelete :: "env \<Rightarrow> oid \<Rightarrow> run \<Rightarrow> outcome" where
  "Subject_findByIdAndDelete e i s =
     (if db_fails e (FindByIdAndDelete Subject i) then Thrown s
      else Done (s\<lparr>work := (work s)\<lparr>subjectDocs := remove_first (\<lambda>x. s_id x = i) (subjectDocs (work s))\<rparr>,
                   issued := issued s @ (if \<exists>x \<in> set (subjectDocs (work s)). s_id x = i
                                         then [Removed Subject i] else [])\<rparr>))"

text \<open>The inner loop of the regulation route, \<open>for (const subject of subjects)\<close>.\<close>

fun subjects_loop :: "env \<Rightarrow> subject_doc list \<Rightarrow> run \<Rightarrow> outcome" where
  "subjects_loop e [] s = Done s"
| "subjects_loop e (x # xs) s =
     andThen (purge_notes e (BySubject (s_id x)) s) (subjects_loop e xs)"

text \<open>
  The outer loop, \<open>for (const branch of branches)\<close>: the branch's notes, its
  subjects' notes, then its subjects.
\<close>

fun branches_loop :: "env \<Rightarrow> branch_doc list \<Rightarrow> run \<Rightarrow> outcome" where
  "branches_loop e [] s = Done s"
| "branches_loop e (b # bs) s =
     andThen (purge_notes e (ByBranch (b_id b)) s) (\<lambda>s1.
     andThen (await_db e (Find Subject (ByBranch (b_id b))) s1) (\<lambda>s2.
     andThen (subjects_loop e (filter (\<lambda>x. s_branch x = b_id b) (subjectDocs (work s2))) s2) (\<lambda>s3.
     andThen (Subject_deleteMany e (b_id b) s3) (branches_loop e bs))))"

text \<open>The \<open>try\<close> block of \<open>DELETE /regulations/:id\<close> after the root was found, up to
  the commit.\<close>

definition regulation_cascade :: "env \<Rightarrow> oid \<Rightarrow> run \<Rightarrow> outcome" where
  "regulation_cascade e i s =
     andThen (purge_notes e (ByRegulation i) s) (\<lambda>s1.
     andThen (await_db e (Find Branch (ByRegulation i)) s1) (\<lambda>s2.
     andThen (branches_loop e (filter (\<lambda>b. b_regulation b = i) (branchDocs (work s2))) s2) (\<lambda>s3.
     andThen (Branch_deleteMany e i s3) (Regulation_findByIdAndDelete e i))))"

definition branch_cascade :: "env \<Rightarrow> oid \<Rightarrow> run \<Rightarrow> outcome" where
  "branch_cascade e i s =
     andThen (purge_notes e (ByBranch i) s) (\<lambda>s1.
     andThen (Subject_deleteMany e i s1) (Branch_findByIdAndDelete e i))"

definition subject_cascade :: "env \<Rightarrow> oid \<Rightarrow> run \<Rightarrow> outcome" where
  "subject_cascade e i s =
     andThen (purge_notes e (BySubject i) s) (Subject_findByIdAndDelete e i)"

text \<open>
  The end of the \<open>try\<close> block: \<open>commitTransaction\<close>, then the 200 answer; a rejection
  anywhere, that of the commit too, lands in \<open>catch\<close>.
\<close>

definition finish :: "env \<Rightarrow> string \<Rightarrow> string \<Rightarrow> outcome \<Rightarrow> reply" where
  "finish e ok err m =
     (case andThen m (commitTransaction e) of
        Thrown s \<Rightarrow> catch err s
      | Done s \<Rightarrow> send (Response 200 (Message ok)) s)"

text \<open>
  \<open>DELETE /regulations/:id\<close>. The two early \<open>return\<close>s leave the \<open>try\<close> block
  without committing or aborting.
\<close>

definition delete_regulation :: "env \<Rightarrow> world \<Rightarrow> string \<Rightarrow> reply" where
  "delete_regulation e w rid =
     (let s = startTransaction w in
      case castId e rid of
        None \<Rightarrow> send (Response 400 (Message ''Invalid ID'')) s
      | Some i \<Rightarrow>
          if db_fails e (FindById Regulation i) then catch ''Error during cascade delete'' s
          else if find (\<lambda>x. r_id x = i) (regulationDocs (work s)) = None
          then send (Response 404 (Message ''Regulation not found'')) s
          else finish e
                 ''Regulation and all related branches, subjects, and notes deleted successfully.''
                 ''Error during cascade delete'' (regulation_cascade e i s))"

text \<open>\<open>DELETE /branches/:id\<close>\<close>

definition delete_branch :: "env \<Rightarrow> world \<Rightarrow> string \<Rightarrow> reply" where
  "delete_branch e w rid =
     (let s = startTransaction w in
      case castId e rid of
        None \<Rightarrow> send (Response 400 (Message ''Invalid ID'')) s
      | Some i \<Rightarrow>
          if db_fails e (FindById Branch i) then catch ''Error deleting branch'' s
          else if find (\<lambda>x. b_id x = i) (branchDocs (work s)) = None
          then send (Response 404 (Message ''Branch not found'')) s
          else finish e ''Branch and related subjects/notes deleted successfully.''
                 ''Error deleting branch'' (branch_cascade e i s))"

text \<open>\<open>DELETE /subjects/:id\<close>\<close>

definition delete_subject :: "env \<Rightarrow> world \<Rightarrow> string \<Rightarrow> reply" where
  "delete_subject e w rid =
     (let s = startTransaction w in
      case castId e rid of
        None \<Rightarrow> send (Response 400 (Message ''Invalid ID'')) s
      | Some i \<Rightarrow>
          if db_fails e (FindById Subject i) then catch ''Error deleting subject'' s
          else if find (\<lambda>x. s_id x = i) (subjectDocs (work s)) = None
          then send (Response 404 (Message ''Subject not found'')) s
          else finish e ''Subject and related notes deleted successfully.''
                 ''Error deleting subject'' (subject_cascade e i s))"

text \<open>
  The spec's \<open>deleteHierarchy(rootKind, rootId)\<close> is the router's choice among the
  three routes.
\<close>

datatype rootKind = RegulationRoot | BranchRoot | SubjectRoot

fun deleteHierarchy :: "env \<Rightarrow> world \<Rightarrow> rootKind \<Rightarrow> string \<Rightarrow> reply" where
  "deleteHierarchy e w RegulationRoot rid = delete_regulation e w rid"
| "deleteHierarchy e w BranchRoot rid = delete_branch e w rid"
| "deleteHierarchy e w SubjectRoot rid = delete_subject e w rid"

fun root_model :: "rootKind \<Rightarrow> model" where
  "root_model RegulationRoot = Regulation"
| "root_model BranchRoot = Branch"
| "root_model SubjectRoot = Subject"

text \<open>Whether the root document is in a metadata store.\<close>

fun root_present :: "db \<Rightarrow> rootKind \<Rightarrow> oid \<Rightarrow> bool" where
  "root_present d RegulationRoot i = (find (\<lambda>x. r_id x = i) (regulationDocs d) \<noteq> None)"
| "root_present d BranchRoot i = (find (\<lambda>x. b_id x = i) (branchDocs d) \<noteq> None)"
| "root_present d SubjectRoot i = (find (\<lambda>x. s_id x = i) (subjectDocs d) \<noteq> None)"

text \<open>The three routes side by side: they differ in their root model, their messages and
  the body of their transaction.\<close>

fun cascade :: "env \<Rightarrow> rootKind \<Rightarrow> oid \<Rightarrow> run \<Rightarrow> outcome" where
  "cascade e RegulationRoot i s = regulation_cascade e i s"
| "cascade e BranchRoot i s = branch_cascade e i s"
| "cascade e SubjectRoot i s = subject_cascade e i s"

fun ok_message :: "rootKind \<Rightarrow> string" where
  "ok_message RegulationRoot =
     ''Regulation and all related branches, subjects, and notes deleted successfully.''"
| "ok_message BranchRoot = ''Branch and related subjects/notes deleted successfully.''"
| "ok_message SubjectRoot = ''Subject and related notes deleted successfully.''"

fun error_message :: "rootKind \<Rightarrow> string" where
  "error_message RegulationRoot = ''Error during cascade delete''"
| "error_message BranchRoot = ''Error deleting branch''"
| "error_message SubjectRoot = ''Error deleting subject''"

fun not_found_message :: "rootKind \<Rightarrow> string" where
  "not_found_message RegulationRoot = ''Regulation not found''"
| "not_found_message BranchRoot = ''Branch not found''"
| "not_found_message SubjectRoot = ''Subject not found''"

text \<open>
  The transaction of a cascade route fails when an awaited call inside the \<open>try\<close>
  block rejects: before the commit, when it is the lookup of the root or a call of the
  cascade body, or in the commit itself.
\<close>

definition fails_before_commit :: "env \<Rightarrow> world \<Rightarrow> rootKind \<Rightarrow> string \<Rightarrow> bool" where
  "fails_before_commit e w k rid =
     (case castId e rid of
        None \<Rightarrow> False
      | Some i \<Rightarrow>
          db_fails e (FindById (root_model k) i) \<or>
          (root_present (store w) k i \<and>
           (case cascade e k i (startTransaction w) of
              Thrown s \<Rightarrow> True
            | Done s \<Rightarrow> False)))"

definition commit_rejected :: "env \<Rightarrow> world \<Rightarrow> rootKind \<Rightarrow> string \<Rightarrow> bool" where
  "commit_rejected e w k rid =
     (case castId e rid of
        None \<Rightarrow> False
      | Some i \<Rightarrow>
          \<not> db_fails e (FindById (root_model k) i) \<and> root_present (store w) k i \<and>
          (case cascade e k i (startTransaction w) of
             Thrown s \<Rightarrow> False
           | Done s \<Rightarrow> db_fails e CommitTransaction))"

section \<open>What a cascade is about\<close>

text \<open>
  The descendants of a root in a metadata store, top-down: the branches of a regulation,
  the subjects of those branches (or of a root branch), and the notes that name the
  root, one of these branches or one of these subjects.
\<close>

fun desc_branches :: "db \<Rightarrow> rootKind \<Rightarrow> oid \<Rightarrow> branch_doc list" where
  "desc_branches d RegulationRoot i = filter (\<lambda>b. b_regulation b = i) (branchDocs d)"
| "desc_branches d BranchRoot i = []"
| "desc_branches d SubjectRoot i = []"

fun desc_subjects :: "db \<Rightarrow> rootKind \<Rightarrow> oid \<Rightarrow> subject_doc list" where
  "desc_subjects d RegulationRoot i =
     filter (\<lambda>x. s_branch x \<in> b_id ` set (desc_branches d RegulationRoot i)) (subjectDocs d)"
| "desc_subjects d BranchRoot i = filter (\<lambda>x. s_branch x = i) (subjectDocs d)"
| "desc_subjects d SubjectRoot i = []"

fun desc_notes :: "db \<Rightarrow> rootKind \<Rightarrow> oid \<Rightarrow> note_doc list" where
  "desc_notes d RegulationRoot i =
     filter (\<lambda>n. n_regulation n = i
                \<or> n_branch n \<in> b_id ` set (desc_branches d RegulationRoot i)
                \<or> n_subject n \<in> s_id ` set (desc_subjects d RegulationRoot i)) (noteDocs d)"
| "desc_notes d BranchRoot i =
     filter (\<lambda>n. n_branch n = i \<or> n_subject n \<in> s_id ` set (desc_subjects d BranchRoot i))
       (noteDocs d)"
| "desc_notes d SubjectRoot i = filter (\<lambda>n. n_subject n = i) (noteDocs d)"

text \<open>
  The data model's consistency invariant, which no route enforces: a note's branch is
  its subject's branch, and a note's regulation is its branch's regulation.
\<close>

definition consistent :: "db \<Rightarrow> bool" where
  "consistent d \<longleftrightarrow>
     (\<forall>n \<in> set (noteDocs d).
        (\<forall>x \<in> set (subjectDocs d). s_id x = n_subject n \<longrightarrow> s_branch x = n_branch n) \<and>
        (\<forall>b \<in> set (branchDocs d). b_id b = n_branch n \<longrightarrow> b_regulation b = n_regulation n))"

text \<open>The store keeps \<open>_id\<close> unique within a collection.\<close>

definition unique_ids :: "db \<Rightarrow> bool" where
  "unique_ids d \<longleftrightarrow>
     distinct (map r_id (regulationDocs d)) \<and> distinct (map b_id (branchDocs d)) \<and>
     distinct (map s_id (subjectDocs d)) \<and> distinct (map n_id (noteDocs d)) \<and>
     distinct (map f_id (facultyDocs d))"

text \<open>The documents a request removed, in the order it removed them.\<close>

fun removed :: "event list \<Rightarrow> (model \<times> oid) list" where
  "removed [] = []"
| "removed (Removed m i # es) = (m, i) # removed es"
| "removed (DeleteObject k # es) = removed es"
| "removed (Committed # es) = removed es"
| "removed (Aborted # es) = removed es"

text \<open>The levels of the hierarchy, leaves first.\<close>

fun rank :: "model \<Rightarrow> nat" where
  "rank Note = 0"
| "rank Subject = 1"
| "rank Branch = 2"
| "rank Regulation = 3"
| "rank Faculty = 4"

section \<open>\<open>routes/notes.js\<close>: deleting one note, building the archive\<close>

text \<open>A handler outside a transaction writes the committed store itself.\<close>

definition arrive :: "world \<Rightarrow> run" where
  "arrive w =
     \<lparr>committed = store w, work = store w, objects = blobs w, issued = [], txn = NoTransaction\<rparr>"

fun update_first :: "('a \<Rightarrow> bool) \<Rightarrow> ('a \<Rightarrow> 'a) \<Rightarrow> 'a list \<Rightarrow> 'a list" where
  "update_first p f [] = []"
| "update_first p f (x # xs) = (if p x then f x # xs else x # update_first p f xs)"

text \<open>\<open>Faculty.findByIdAndUpdate(fid, { $pull: { uploadedNotes: nid } })\<close>\<close>

definition Faculty_pull :: "env \<Rightarrow> oid \<Rightarrow> oid \<Rightarrow> run \<Rightarrow> outcome" where
  "Faculty_pull e fid nid s =
     (if db_fails e (PullUploadedNote fid nid) then Thrown s
      else Done (s\<lparr>committed := (committed s)\<lparr>facultyDocs :=
                     update_first (\<lambda>f. f_id f = fid)
                       (\<lambda>f. f\<lparr>uploadedNotes := removeAll nid (uploadedNotes f)\<rparr>)
                       (facultyDocs (committed s))\<rparr>\<rparr>))"

text \<open>\<open>note.deleteOne()\<close>\<close>

definition Note_deleteOne :: "env \<Rightarrow> oid \<Rightarrow> run \<Rightarrow> outcome" where
  "Note_deleteOne e i s =
     (if db_fails e (DeleteOne i) then Thrown s
      else Done (s\<lparr>committed := (committed s)\<lparr>noteDocs :=
                     remove_first (\<lambda>n. n_id n = i) (noteDocs (committed s))\<rparr>,
                   issued := issued s @ (if \<exists>n \<in> set (noteDocs (committed s)). n_id n = i
                                         then [Removed Note i] else [])\<rparr>))"

text \<open>
  \<open>DELETE /:id\<close> of the notes router. \<open>findById\<close> rejects on a string that is no
  ObjectId, which the \<open>catch\<close> answers like any other failure.
\<close>

definition delete_note :: "env \<Rightarrow> world \<Rightarrow> string \<Rightarrow> reply" where
  "delete_note e w noteId =
     (let s = arrive w in
      case castId e noteId of
        None \<Rightarrow> send (Response 500 (Message ''Delete failed'')) s
      | Some i \<Rightarrow>
          if db_fails e (FindById Note i) then send (Response 500 (Message ''Delete failed'')) s
          else (case find (\<lambda>n. n_id n = i) (noteDocs (committed s)) of
                  None \<Rightarrow> send (Response 404 (Message ''Note not found'')) s
                | Some note \<Rightarrow>
                    (case andThen (if fileKey note \<noteq> [] then deleteS3Object e (fileKey note) s
                                   else Done s) (\<lambda>s1.
                          andThen (Faculty_pull e (uploadedBy note) (n_id note) s1)
                            (Note_deleteOne e (n_id note))) of
                       Thrown s' \<Rightarrow> send (Response 500 (Message ''Delete failed'')) s'
                     | Done s' \<Rightarrow> send (Response 200 (Message ''Note deleted successfully'')) s')))"

text \<open>
  The body the route reads for a key: \<open>getDownloadURL\<close>, \<open>fetch\<close>,
  \<open>arrayBuffer\<close>. \<open>None\<close> is a rejection; a key the bucket does not hold still
  yields a body, S3's error document.
\<close>

definition fetchBuffer :: "env \<Rightarrow> (string \<Rightarrow> bytes option) \<Rightarrow> string \<Rightarrow> bytes option" where
  "fetchBuffer e bucket key =
     (if fetch_fails e key then None
      else Some (case bucket key of Some b \<Rightarrow> b | None \<Rightarrow> error_body e key))"

text \<open>
  The callback of \<open>notes.map\<close>: \<open>Some None\<close> is the \<open>null\<close> of a note without
  \<open>fileKey\<close>, \<open>None\<close> a rejected promise.
\<close>

definition fileData :: "env \<Rightarrow> (string \<Rightarrow> bytes option) \<Rightarrow> note_doc \<Rightarrow> (bytes \<times> string) option option" where
  "fileData e bucket note =
     (if fileKey note = [] then Some None
      else (case fetchBuffer e bucket (fileKey note) of
              None \<Rightarrow> None
            | Some buffer \<Rightarrow> Some (Some (buffer, title note @ ''.pdf''))))"

text \<open>\<open>Promise.all\<close>: every result in order, or a rejection when one promise rejects.\<close>

fun promise_all :: "'a option list \<Rightarrow> 'a list option" where
  "promise_all [] = Some []"
| "promise_all (None # ps) = None"
| "promise_all (Some x # ps) = (case promise_all ps of None \<Rightarrow> None | Some xs \<Rightarrow> Some (x # xs))"

text \<open>
  JSZip's \<open>zip.file(name, data)\<close>: a new entry, or the entry of that name replaced. The
  archive is the list of its file entries; the folder entries JSZip derives from a name
  with a slash are left out.
\<close>

fun zip_file :: "string \<Rightarrow> bytes \<Rightarrow> archive \<Rightarrow> archive" where
  "zip_file name data [] = [(name, data)]"
| "zip_file name data ((k, v) # z) =
     (if k = name then (k, data) # z else (k, v) # zip_file name data z)"

text \<open>\<open>filesData.forEach((f) => f && zip.file(f.name, Buffer.from(f.buffer)))\<close>\<close>

fun add_files :: "(bytes \<times> string) option list \<Rightarrow> archive \<Rightarrow> archive" where
  "add_files [] z = z"
| "add_files (None # fs) z = add_files fs z"
| "add_files (Some (buffer, name) # fs) z = add_files fs (zip_file name buffer z)"

text \<open>The documents \<open>Note.find({ _id: { $in: noteIds } })\<close> resolves.\<close>

definition Note_find_in :: "db \<Rightarrow> oid list \<Rightarrow> note_doc list" where
  "Note_find_in d noteIds = filter (\<lambda>n. n_id n \<in> set noteIds) (noteDocs d)"

text \<open>
  \<open>POST /download-zip\<close>, the spec's \<open>buildArchive\<close>. \<open>noteIds\<close> is the list of
  identifiers of the request body; the answer 500 also carries the error's own text.
\<close>

definition download_zip :: "env \<Rightarrow> world \<Rightarrow> oid list \<Rightarrow> response" where
  "download_zip e w noteIds =
     (if noteIds = [] then Response 400 (Message ''No notes selected'')
      else if db_fails e (FindNotesIn noteIds) then Response 500 (Message ''Error creating ZIP'')
      else (let found = Note_find_in (store w) noteIds in
            if found = [] then Response 404 (Message ''Notes not found'')
            else (case promise_all (map (fileData e (blobs w)) found) of
                    None \<Rightarrow> Response 500 (Message ''Error creating ZIP'')
                  | Some filesData \<Rightarrow> Response 200 (ZipBuffer (add_files filesData [])))))"

section \<open>\<open>routes/admin.js\<close>: deleting one note\<close>

text \<open>\<open>Note.findByIdAndDelete(id)\<close>, outside any session.\<close>

definition Note_findByIdAndDelete :: "env \<Rightarrow> oid \<Rightarrow> run \<Rightarrow> outcome" where
  "Note_findByIdAndDelete e i s =
     (if db_fails e (FindByIdAndDelete Note i) then Thrown s
      else Done (s\<lparr>committed := (committed s)\<lparr>noteDocs :=
                     remove_first (\<lambda>n. n_id n = i) (noteDocs (committed s))\<rparr>,
                   issued := issued s @ (if \<exists>n \<in> set (noteDocs (committed s)). n_id n = i
                                         then [Removed Note i] else [])\<rparr>))"

text \<open>\<open>DELETE /notes/:id\<close> of the admin router.\<close>

definition admin_delete_note :: "env \<Rightarrow> world \<Rightarrow> string \<Rightarrow> reply" where
  "admin_delete_note e w noteId =
     (let s = arrive w in
      case castId e noteId of
        None \<Rightarrow> send (Response 500 (Message ''Server error'')) s
      | Some i \<Rightarrow>
          if db_fails e (FindById Note i) then send (Response 500 (Message ''Server error'')) s
          else (case find (\<lambda>n. n_id n = i) (noteDocs (committed s)) of
                  None \<Rightarrow> send (Response 404 (Message ''Note not found'')) s
                | Some note \<Rightarrow>
                    (case andThen (deleteFile e (fileKey note) s) (Note_findByIdAndDelete e i) of
                       Thrown s' \<Rightarrow> send (Response 500 (Message ''Server error'')) s'
                     | Done s' \<Rightarrow> send (Response 200 (Message ''Note deleted'')) s')))"

section \<open>\<open>routes/admin.js\<close>: the faculty routes\<close>

text \<open>mongoose's \<open>toObject()\<close> on a faculty document.\<close>

definition toObject :: "faculty_doc \<Rightarrow> document" where
  "toObject f =
     [(''_id'', JId (f_id f)), (''name'', JStr (f_name f)), (''email'', JStr (email f)),
      (''password'', JStr (password f)), (''employeeId'', JStr (employeeId f)),
      (''designation'', JStr (designation f)), (''uploadedNotes'', JIds (uploadedNotes f)),
      (''createdAt'', JNum (f_createdAt f))]"

text \<open>\<open>delete obj[key]\<close>, and the projection \<open>select("-key")\<close>.\<close>

definition delete_key :: "string \<Rightarrow> document \<Rightarrow> document" where
  "delete_key key d = filter (\<lambda>kv. fst kv \<noteq> key) d"

text \<open>\<open>GET /faculty\<close>: newest first, without the password.\<close>

definition list_faculty :: "env \<Rightarrow> world \<Rightarrow> reply" where
  "list_faculty e w =
     (let s = arrive w in
      if db_fails e (FindAll Faculty) then send (Response 500 (Message ''Server error'')) s
      else send (Response 200 (Documents
             (map (\<lambda>f. delete_key ''password'' (toObject f))
                (sort_key (\<lambda>f. - int (f_createdAt f)) (facultyDocs (committed s)))))) s)"

text \<open>The fields the two writing routes read from \<open>req.body\<close>; a field that is absent
  and an empty one are both falsy.\<close>

record faculty_body =
  fb_name :: string
  fb_email :: string
  fb_password :: string
  fb_employeeId :: string
  fb_designation :: string

text \<open>\<open>POST /faculty\<close>\<close>

definition create_faculty :: "env \<Rightarrow> world \<Rightarrow> faculty_body \<Rightarrow> reply" where
  "create_faculty e w b =
     (let s = arrive w in
      if fb_name b = [] \<or> fb_email b = [] \<or> fb_password b = [] \<or> fb_employeeId b = []
         \<or> fb_designation b = []
      then send (Response 400 (Message ''Required fields missing'')) s
      else if db_fails e (FindOneByEmail (fb_email b))
      then send (Response 500 (Message ''Server error'')) s
      else if \<exists>f \<in> set (facultyDocs (committed s)). email f = fb_email b
      then send (Response 400 (Message ''Email already exists'')) s
      else if db_fails e (FindOneByEmployeeId (fb_employeeId b))
      then send (Response 500 (Message ''Server error'')) s
      else if \<exists>f \<in> set (facultyDocs (committed s)). employeeId f = fb_employeeId b
      then send (Response 400 (Message ''Employee ID already exists'')) s
      else (let faculty = \<lparr>f_id = newObjectId e, f_name = fb_name b, email = fb_email b,
                            password = bcrypt_hash e (fb_password b),
                            employeeId = fb_employeeId b, designation = fb_designation b,
                            uploadedNotes = [], f_createdAt = now e\<rparr> in
            if db_fails e (Save Faculty (f_id faculty))
            then send (Response 500 (Message ''Server error'')) s
            else send (Response 201 (Document (delete_key ''password'' (toObject faculty))))
                   (s\<lparr>committed := (committed s)\<lparr>facultyDocs :=
                        facultyDocs (committed s) @ [faculty]\<rparr>\<rparr>)))"

text \<open>The assignments of \<open>PUT /faculty/:id\<close> between the two uniqueness checks and
  \<open>save\<close>.\<close>

definition apply_body :: "env \<Rightarrow> faculty_body \<Rightarrow> faculty_doc \<Rightarrow> faculty_doc" where
  "apply_body e b f =
     (let f1 = (if fb_email b \<noteq> [] \<and> fb_email b \<noteq> email f then f\<lparr>email := fb_email b\<rparr> else f);
          f2 = (if fb_employeeId b \<noteq> [] \<and> fb_employeeId b \<noteq> employeeId f1
                then f1\<lparr>employeeId := fb_employeeId b\<rparr> else f1);
          f3 = (if fb_name b \<noteq> [] then f2\<lparr>f_name := fb_name b\<rparr> else f2);
          f4 = (if fb_designation b \<noteq> [] then f3\<lparr>designation := fb_designation b\<rparr> else f3)
      in if fb_password b \<noteq> [] then f4\<lparr>password := bcrypt_hash e (fb_password b)\<rparr> else f4)"

text \<open>\<open>PUT /faculty/:id\<close>\<close>

definition update_faculty :: "env \<Rightarrow> world \<Rightarrow> string \<Rightarrow> faculty_body \<Rightarrow> reply" where
  "update_faculty e w rid b =
     (let s = arrive w in
      case castId e rid of
        None \<Rightarrow> send (Response 400 (Message ''Invalid ID'')) s
      | Some i \<Rightarrow>
          if db_fails e (FindById Faculty i) then send (Response 500 (Message ''Server error'')) s
          else (case find (\<lambda>f. f_id f = i) (facultyDocs (committed s)) of
                  None \<Rightarrow> send (Response 404 (Message ''Faculty not found'')) s
                | Some faculty \<Rightarrow>
                    if fb_email b \<noteq> [] \<and> fb_email b \<noteq> email faculty
                       \<and> db_fails e (FindOneByEmail (fb_email b))
                    then send (Response 500 (Message ''Server error'')) s
                    else if fb_email b \<noteq> [] \<and> fb_email b \<noteq> email faculty
                       \<and> (\<exists>f \<in> set (facultyDocs (committed s)). email f = fb_email b \<and> f_id f \<noteq> i)
                    then send (Response 400 (Message ''Email already exists'')) s
                    else if fb_employeeId b \<noteq> [] \<and> fb_employeeId b \<noteq> employeeId faculty
                       \<and> db_fails e (FindOneByEmployeeId (fb_employeeId b))
                    then send (Response 500 (Message ''Server error'')) s
                    else if fb_employeeId b \<noteq> [] \<and> fb_employeeId b \<noteq> employeeId faculty
                       \<and> (\<exists>f \<in> set (facultyDocs (committed s)).
                             employeeId f = fb_employeeId b \<and> f_id f \<noteq> i)
                    then send (Response 400 (Message ''Employee ID already exists'')) s
                    else (let updated = apply_body e b faculty in
                          if db_fails e (Save Faculty i)
                          then send (Response 500 (Message ''Server error'')) s
                          else send (Response 200 (Document (delete_key ''password'' (toObject updated))))
                                 (s\<lparr>committed := (committed s)\<lparr>facultyDocs :=
                                      update_first (\<lambda>f. f_id f = i) (\<lambda>f. updated)
                                        (facultyDocs (committed s))\<rparr>\<rparr>))))"

text \<open>The three faculty routes behind the admin router.\<close>

datatype faculty_request =
    GET_faculty
  | POST_faculty faculty_body
  | PUT_faculty string faculty_body

fun admin_faculty :: "env \<Rightarrow> world \<Rightarrow> faculty_request \<Rightarrow> reply" where
  "admin_faculty e w GET_faculty = list_faculty e w"
| "admin_faculty e w (POST_faculty b) = create_faculty e w b"
| "admin_faculty e w (PUT_faculty rid b) = update_faculty e w rid b"

text \<open>The faculty documents a response carries.\<close>

fun documents_of :: "response \<Rightarrow> document list" where
  "documents_of (Response c (Document d)) = [d]"
| "documents_of (Response c (Documents ds)) = ds"
| "documents_of (Response c (Message m)) = []"
| "documents_of (Response c (ZipBuffer z)) = []"
| "documents_of Unanswered = []"

text \<open>A store, an environment and a request with every password and hash blanked: what
  is left is all a response may depend on.\<close>

definition redact_db :: "db \<Rightarrow> db" where
  "redact_db d = d\<lparr>facultyDocs := map (\<lambda>f. f\<lparr>password := []\<rparr>) (facultyDocs d)\<rparr>"

definition redact_env :: "env \<Rightarrow> env" where
  "redact_env e = e\<lparr>bcrypt_hash := (\<lambda>p. [])\<rparr>"

fun redact_request :: "faculty_request \<Rightarrow> faculty_request" where
  "redact_request GET_faculty = GET_faculty"
| "redact_request (POST_faculty b) = POST_faculty (b\<lparr>fb_password := (if fb_password b = [] then [] else ''*'')\<rparr>)"
| "redact_request (PUT_faculty rid b) = PUT_faculty rid (b\<lparr>fb_password := []\<rparr>)"

section \<open>A small campus\<close>

text \<open>
  One regulation with two branches, a subject and a note in each, and the faculty member
  who uploaded both notes; an environment in which nothing fails and the identifiers are
  written in decimal.
\<close>

definition example_cast :: "string \<Rightarrow> oid option" where
  "example_cast s =
     (if s = ''1'' then Some 1 else if s = ''10'' then Some 10 else if s = ''11'' then Some 11
      else if s = ''20'' then Some 20 else if s = ''21'' then Some 21
      else if s = ''30'' then Some 30 else if s = ''40'' then Some 40 else None)"

definition calm :: env where
  "calm = \<lparr>castId = example_cast, db_fails = (\<lambda>op. False), s3_fails = (\<lambda>k. False),
            fetch_fails = (\<lambda>k. False), error_body = (\<lambda>k. []), bcrypt_hash = (\<lambda>p. CHR ''#'' # p),
            newObjectId = 41, now = 7\<rparr>"

definition campus_db :: db where
  "campus_db =
     \<lparr>regulationDocs = [\<lparr>r_id = 1, r_name = ''R20'', numberOfSemesters = 8\<rparr>],
      branchDocs = [\<lparr>b_id = 10, b_name = ''CSE'', b_code = ''05'', b_regulation = 1\<rparr>,
                    \<lparr>b_id = 11, b_name = ''ECE'', b_code = ''04'', b_regulation = 1\<rparr>],
      subjectDocs = [\<lparr>s_id = 20, s_name = ''Logic'', s_code = ''L1'', s_branch = 10, s_semester = ''1''\<rparr>,
                     \<lparr>s_id = 21, s_name = ''Signals'', s_code = ''S1'', s_branch = 11, s_semester = ''3''\<rparr>],
      noteDocs = [\<lparr>n_id = 30, title = ''A'', n_regulation = 1, n_subject = 20, n_branch = 10,
                    n_semester = ''1'', fileKey = ''uploads/1_A.pdf'', uploadedBy = 40, n_createdAt = 1\<rparr>,
                  \<lparr>n_id = 31, title = ''B'', n_regulation = 1, n_subject = 21, n_branch = 11,
                    n_semester = ''3'', fileKey = ''uploads/2_B.pdf'', uploadedBy = 40, n_createdAt = 2\<rparr>],
      facultyDocs = [\<lparr>f_id = 40, f_name = ''Rao'', email = ''rao@kithab.in'', password = ''$2a$10$abc'',
                       employeeId = ''E1'', designation = ''Professor'', uploadedNotes = [30, 31],
                       f_createdAt = 0\<rparr>]\<rparr>"

definition campus_blobs :: "string \<Rightarrow> bytes option" where
  "campus_blobs = (\<lambda>k. None)(''uploads/1_A.pdf'' := Some [37, 80, 68, 70], ''uploads/2_B.pdf'' := Some [37, 80])"

definition campus :: world where
  "campus = \<lparr>store = campus_db, blobs = campus_blobs\<rparr>"

definition note_A :: note_doc where
  "note_A = \<lparr>n_id = 30, title = ''A'', n_regulation = 1, n_subject = 20, n_branch = 10,
              n_semester = ''1'', fileKey = ''uploads/1_A.pdf'', uploadedBy = 40, n_createdAt = 1\<rparr>"

definition note_B :: note_doc where
  "note_B = \<lparr>n_id = 31, title = ''B'', n_regulation = 1, n_subject = 21, n_branch = 11,
              n_semester = ''3'', fileKey = ''uploads/2_B.pdf'', uploadedBy = 40, n_createdAt = 2\<rparr>"

text \<open>A request body that sets a new password and a new designation.\<close>

definition new_password :: faculty_body where
  "new_password = \<lparr>fb_name = [], fb_email = [], fb_password = ''hunter2'', fb_employeeId = [],
                    fb_designation = ''Dean''\<rparr>"

text \<open>The same environment, except that deleting the subjects of branch 11 is rejected.\<close>

definition subjects_fail :: env where
  "subjects_fail = calm\<lparr>db_fails := (\<lambda>op. op = DeleteMany Subject (ByBranch 11))\<rparr>"

text \<open>
  The campus with one more note, filed under subject 21 of branch 11 but under another
  regulation: a store that breaks the consistency invariant.
\<close>

definition stray_db :: db where
  "stray_db = campus_db\<lparr>noteDocs := noteDocs campus_db @
     [\<lparr>n_id = 32, title = ''C'', n_regulation = 2, n_subject = 21, n_branch = 11,
       n_semester = ''3'', fileKey = ''uploads/3_C.pdf'', uploadedBy = 40, n_createdAt = 3\<rparr>]\<rparr>"

definition stray :: world where
  "stray = \<lparr>store = stray_db, blobs = campus_blobs\<rparr>"





section \<open>Proof notions\<close>

text \<open>
  What every step of a cascade body does to the running handler, whether it returns or
  rejects: the committed metadata and the state of the transaction stay, events are only
  appended, none of them a commit or an abort, and a note that leaves the session's view
  has had its object deleted.
\<close>

definition step :: "run \<Rightarrow> run \<Rightarrow> bool" where
  "step s s' \<longleftrightarrow>
     committed s' = committed s \<and> txn s' = txn s \<and>
     (\<exists>evs. issued s' = issued s @ evs \<and> Committed \<notin> set evs \<and> Aborted \<notin> set evs \<and>
        (\<forall>n \<in> set (noteDocs (work s)). n \<notin> set (noteDocs (work s')) \<longrightarrow>
           DeleteObject (fileKey n) \<in> set evs))"

text \<open>
  The removals of a cascade come in layers: notes, then subjects, then branches, then
  regulations; and once a layer is left, every document expected of the layers below
  has been removed.
\<close>

definition layers :: "oid set \<Rightarrow> oid set \<Rightarrow> oid set \<Rightarrow> (model \<times> oid) list \<Rightarrow> bool" where
  "layers N S B rem \<longleftrightarrow>
     (\<exists>ns ss bs rs.
        rem = map (Pair Note) ns @ map (Pair Subject) ss @ map (Pair Branch) bs
                @ map (Pair Regulation) rs \<and>
        (ss @ bs @ rs \<noteq> [] \<longrightarrow> N \<subseteq> set ns) \<and>
        (bs @ rs \<noteq> [] \<longrightarrow> S \<subseteq> set ss) \<and>
        (rs \<noteq> [] \<longrightarrow> B \<subseteq> set bs))"

section \<open>Evaluation\<close>

lemmas example_defs = example_cast_def calm_def campus_db_def campus_blobs_def campus_def

lemmas route_defs = delete_regulation_def delete_branch_def delete_subject_def
  regulation_cascade_def branch_cascade_def subject_cascade_def finish_def catch_def send_def
  reject_def
  startTransaction_def commitTransaction_def abortTransaction_def await_db_def purge_notes_def
  Note_deleteMany_def Subject_deleteMany_def Branch_deleteMany_def
  Regulation_findByIdAndDelete_def Branch_findByIdAndDelete_def Subject_findByIdAndDelete_def
  deleteFile_def deleteS3Object_def Let_def

lemmas zip_defs = download_zip_def Note_find_in_def fileData_def fetchBuffer_def

lemmas note_defs = delete_note_def admin_delete_note_def arrive_def Faculty_pull_def
  Note_deleteOne_def Note_findByIdAndDelete_def

section \<open>Sequencing\<close>

lemma andThen_simps [simp]:
  "andThen (Done s) f = f s" "andThen (Thrown s) f = Thrown s"
  by (simp_all add: andThen_def)

lemma andThen_Done_iff: "andThen m f = Done s' \<longleftrightarrow> (\<exists>s1. m = Done s1 \<and> f s1 = Done s')"
  by (cases m) simp_all

lemma andThen_Thrown_iff:
  "andThen m f = Thrown s' \<longleftrightarrow> m = Thrown s' \<or> (\<exists>s1. m = Done s1 \<and> f s1 = Thrown s')"
  by (cases m) simp_all

subsection \<open>The shape of a purge\<close>

lemma delete_files_Done:
  "delete_files e ns s = Done s' \<Longrightarrow>
     committed s' = committed s \<and> work s' = work s \<and>
     issued s' = issued s @ map (\<lambda>n. DeleteObject (fileKey n)) ns"
proof (induction ns arbitrary: s)
  case Nil
  then show ?case by simp
next
  case (Cons n ns)
  from Cons.prems obtain s1 where a: "deleteFile e (fileKey n) s = Done s1"
    and b: "delete_files e ns s1 = Done s'"
    by (auto simp: andThen_Done_iff)
  from a have "committed s1 = committed s \<and> work s1 = work s \<and>
      issued s1 = issued s @ [DeleteObject (fileKey n)]"
    by (auto simp: deleteFile_def deleteS3Object_def split: if_splits)
  with Cons.IH [OF b] show ?case by simp
qed

lemma delete_files_Thrown:
  "delete_files e ns s = Thrown s' \<Longrightarrow>
     committed s' = committed s \<and> work s' = work s \<and>
     (\<exists>ks. issued s' = issued s @ map DeleteObject ks)"
proof (induction ns arbitrary: s)
  case Nil
  then show ?case by simp
next
  case (Cons n ns)
  from Cons.prems consider
      (now) "deleteFile e (fileKey n) s = Thrown s'"
    | (later) s1 where "deleteFile e (fileKey n) s = Done s1" "delete_files e ns s1 = Thrown s'"
    by (auto simp: andThen_Thrown_iff)
  then show ?case
  proof cases
    case now
    then have "committed s' = committed s \<and> work s' = work s \<and>
        issued s' = issued s @ map DeleteObject [fileKey n]"
      by (auto simp: deleteFile_def deleteS3Object_def split: if_splits)
    then show ?thesis by blast
  next
    case later
    from later(1) have h: "committed s1 = committed s \<and> work s1 = work s \<and>
        issued s1 = issued s @ [DeleteObject (fileKey n)]"
      by (auto simp: deleteFile_def deleteS3Object_def split: if_splits)
    from Cons.IH [OF later(2)] obtain ks where
      k: "committed s' = committed s1" "work s' = work s1" "issued s' = issued s1 @ map DeleteObject ks"
      by blast
    have "issued s' = issued s @ map DeleteObject (fileKey n # ks)"
      using h k by simp
    with h k show ?thesis by metis
  qed
qed

lemma purge_notes_Done:
  assumes "purge_notes e q s = Done s'"
  shows "committed s' = committed s"
    and "work s' = (work s)\<lparr>noteDocs := filter (\<lambda>n. \<not> note_matches q n) (noteDocs (work s))\<rparr>"
    and "issued s' = issued s @ map (\<lambda>n. DeleteObject (fileKey n)) (filter (note_matches q) (noteDocs (work s)))
                       @ map (\<lambda>n. Removed Note (n_id n)) (filter (note_matches q) (noteDocs (work s)))"
proof -
  from assms obtain s1 where a: "delete_files e (filter (note_matches q) (noteDocs (work s))) s = Done s1"
    and b: "Note_deleteMany e q s1 = Done s'"
    by (auto simp: purge_notes_def await_db_def andThen_Done_iff split: if_splits)
  note f = delete_files_Done [OF a]
  from b f show "committed s' = committed s"
    by (auto simp: Note_deleteMany_def split: if_splits)
  from b f show "work s' = (work s)\<lparr>noteDocs := filter (\<lambda>n. \<not> note_matches q n) (noteDocs (work s))\<rparr>"
    by (auto simp: Note_deleteMany_def split: if_splits)
  from b f show "issued s' = issued s @ map (\<lambda>n. DeleteObject (fileKey n)) (filter (note_matches q) (noteDocs (work s)))
                       @ map (\<lambda>n. Removed Note (n_id n)) (filter (note_matches q) (noteDocs (work s)))"
    by (auto simp: Note_deleteMany_def split: if_splits)
qed

lemma purge_notes_Thrown:
  assumes "purge_notes e q s = Thrown s'"
  shows "committed s' = committed s \<and> work s' = work s \<and> (\<exists>ks. issued s' = issued s @ map DeleteObject ks)"
proof -
  from assms consider
      (find) "s' = s"
    | (files) "delete_files e (filter (note_matches q) (noteDocs (work s))) s = Thrown s'"
    | (many) s1 where "delete_files e (filter (note_matches q) (noteDocs (work s))) s = Done s1"
        "Note_deleteMany e q s1 = Thrown s'"
    by (auto simp: purge_notes_def await_db_def andThen_Thrown_iff split: if_splits)
  then show ?thesis
  proof cases
    case find
    then have "issued s' = issued s @ map DeleteObject []" by simp
    with find show ?thesis by blast
  next
    case files
    then show ?thesis by (rule delete_files_Thrown)
  next
    case many
    from many(2) have "s' = s1" by (auto simp: Note_deleteMany_def split: if_splits)
    with delete_files_Done [OF many(1)]
    have "committed s' = committed s \<and> work s' = work s \<and>
      issued s' = issued s @ map DeleteObject (map fileKey (filter (note_matches q) (noteDocs (work s))))"
      by (simp add: comp_def)
    then show ?thesis by blast
  qed
qed

text \<open>No call of a purge touches the state of the transaction.\<close>

lemma txn_delete_files: "txn (state_of (delete_files e ns s)) = txn s"
proof (induction ns arbitrary: s)
  case Nil
  show ?case by simp
next
  case (Cons n ns)
  show ?case
  proof (cases "s3_fails e (fileKey n)")
    case True
    then show ?thesis by (simp add: deleteFile_def deleteS3Object_def)
  next
    case False
    with Cons.IH [of "s\<lparr>objects := (objects s)(fileKey n := None),
        issued := issued s @ [DeleteObject (fileKey n)]\<rparr>"]
    show ?thesis by (simp add: deleteFile_def deleteS3Object_def)
  qed
qed

lemma txn_purge_notes: "txn (state_of (purge_notes e q s)) = txn s"
proof (cases "db_fails e (Find Note q)")
  case True
  then show ?thesis by (simp add: purge_notes_def await_db_def)
next
  case False
  let ?m = "delete_files e (filter (note_matches q) (noteDocs (work s))) s"
  from txn_delete_files [of e "filter (note_matches q) (noteDocs (work s))" s] False
  show ?thesis
    by (cases ?m) (simp_all add: purge_notes_def await_db_def Note_deleteMany_def)
qed

lemma step_refl: "step s s"
  by (simp add: step_def)

lemma step_trans: "step s s1 \<Longrightarrow> step s1 s2 \<Longrightarrow> step s s2"
  unfolding step_def
  apply (elim conjE exE)
  subgoal for evs1 evs2
    apply (intro conjI)
      apply simp
     apply simp
    apply (rule exI [of _ "evs1 @ evs2"])
    apply auto
    done
  done

lemma step_andThen:
  assumes "step s (state_of m)" and "\<And>s1. m = Done s1 \<Longrightarrow> step s1 (state_of (f s1))"
  shows "step s (state_of (andThen m f))"
  using assms by (cases m) (auto intro: step_trans)

lemma step_await_db: "step s (state_of (await_db e op s))"
  by (simp add: await_db_def step_refl)

lemma step_purge_notes: "step s (state_of (purge_notes e q s))"
proof (cases "purge_notes e q s")
  case (Done s')
  from purge_notes_Done [OF Done] txn_purge_notes [of e q s] show ?thesis
    unfolding Done step_def by auto
next
  case (Thrown s')
  from purge_notes_Thrown [OF Thrown] txn_purge_notes [of e q s] show ?thesis
    unfolding Thrown step_def by auto
qed

lemma step_Subject_deleteMany: "step s (state_of (Subject_deleteMany e b s))"
  by (auto simp: Subject_deleteMany_def step_def)

lemma step_Branch_deleteMany: "step s (state_of (Branch_deleteMany e b s))"
  by (auto simp: Branch_deleteMany_def step_def)

lemma step_Regulation_findByIdAndDelete: "step s (state_of (Regulation_findByIdAndDelete e b s))"
  by (simp add: Regulation_findByIdAndDelete_def step_def)

lemma step_Branch_findByIdAndDelete: "step s (state_of (Branch_findByIdAndDelete e b s))"
  by (simp add: Branch_findByIdAndDelete_def step_def)

lemma step_Subject_findByIdAndDelete: "step s (state_of (Subject_findByIdAndDelete e b s))"
  by (simp add: Subject_findByIdAndDelete_def step_def)

lemma step_subjects_loop: "step s (state_of (subjects_loop e xs s))"
proof (induction xs arbitrary: s)
  case Nil
  show ?case by (simp add: step_refl)
next
  case (Cons x xs)
  show ?case by (simp del: state_of.simps) (intro step_andThen step_purge_notes Cons.IH)
qed

lemma step_branches_loop: "step s (state_of (branches_loop e bs s))"
proof (induction bs arbitrary: s)
  case Nil
  show ?case by (simp add: step_refl)
next
  case (Cons b bs)
  show ?case
    by (simp del: state_of.simps)
       (intro step_andThen step_purge_notes step_await_db step_subjects_loop
          step_Subject_deleteMany Cons.IH)
qed

lemma step_regulation_cascade: "step s (state_of (regulation_cascade e i s))"
  unfolding regulation_cascade_def
  by (intro step_andThen step_purge_notes step_await_db step_branches_loop
        step_Branch_deleteMany step_Regulation_findByIdAndDelete)

lemma step_branch_cascade: "step s (state_of (branch_cascade e i s))"
  unfolding branch_cascade_def
  by (intro step_andThen step_purge_notes step_Subject_deleteMany step_Branch_findByIdAndDelete)

lemma step_subject_cascade: "step s (state_of (subject_cascade e i s))"
  unfolding subject_cascade_def
  by (intro step_andThen step_purge_notes step_Subject_findByIdAndDelete)

subsection \<open>The three routes as one\<close>

lemma deleteHierarchy_unfold:
  "deleteHierarchy e w k rid =
     (case castId e rid of
        None \<Rightarrow> send (Response 400 (Message ''Invalid ID'')) (startTransaction w)
      | Some i \<Rightarrow>
          if db_fails e (FindById (root_model k) i) then catch (error_message k) (startTransaction w)
          else if \<not> root_present (store w) k i
          then send (Response 404 (Message (not_found_message k))) (startTransaction w)
          else finish e (ok_message k) (error_message k) (cascade e k i (startTransaction w)))"
  by (cases k)
     (simp_all add: delete_regulation_def delete_branch_def delete_subject_def Let_def
        startTransaction_def split: option.split)

lemma step_cascade: "step s (state_of (cascade e k i s))"
  by (cases k) (simp_all add: step_regulation_cascade step_branch_cascade step_subject_cascade)

lemma send_start [simp]:
  "after (send r (startTransaction w)) = w" "events (send r (startTransaction w)) = []"
  "response (send r s) = r"
  by (simp_all add: send_def startTransaction_def)

lemma catch_InProgress:
  "txn s = InProgress \<Longrightarrow>
     catch m s = send (Response 500 (Message m))
       (s\<lparr>work := committed s, issued := issued s @ [Aborted], txn := AbortCalled\<rparr>)"
  by (simp add: catch_def abortTransaction_def)

lemma catch_start [simp]:
  "after (catch m (startTransaction w)) = w" "events (catch m (startTransaction w)) = [Aborted]"
  "response (catch m (startTransaction w)) = Response 500 (Message m)"
  by (simp_all add: catch_def send_def startTransaction_def abortTransaction_def)

text \<open>The three ways a cascade route ends once its root was found.\<close>

lemma finish_cascade_Thrown:
  assumes "cascade e k i (startTransaction w) = Thrown s"
  shows "finish e ok err (cascade e k i (startTransaction w)) =
     send (Response 500 (Message err))
       (s\<lparr>work := committed s, issued := issued s @ [Aborted], txn := AbortCalled\<rparr>)"
proof -
  from step_cascade [of "startTransaction w" e k i] assms have "txn s = InProgress"
    by (simp add: step_def startTransaction_def)
  with assms show ?thesis
    by (simp add: finish_def catch_InProgress)
qed

lemma finish_cascade_rejected:
  assumes "cascade e k i (startTransaction w) = Done s" and "db_fails e CommitTransaction"
  shows "finish e ok err (cascade e k i (startTransaction w)) = reject (s\<lparr>txn := CommitCalled\<rparr>)"
  using assms by (simp add: finish_def commitTransaction_def catch_def abortTransaction_def)

lemma finish_cascade_Done:
  assumes "cascade e k i (startTransaction w) = Done s" and "\<not> db_fails e CommitTransaction"
  shows "finish e ok err (cascade e k i (startTransaction w)) =
     send (Response 200 (Message ok))
       (s\<lparr>committed := work s, issued := issued s @ [Committed], txn := CommitCalled\<rparr>)"
  using assms by (simp add: finish_def commitTransaction_def)

lemma response_reject [simp]: "response (reject s) = Unanswered"
  by (simp add: reject_def)

subsection \<open>What a completed loop leaves\<close>

lemma subjects_loop_Done:
  "subjects_loop e xs s = Done s' \<Longrightarrow>
     work s' = (work s)\<lparr>noteDocs := filter (\<lambda>n. n_subject n \<notin> s_id ` set xs) (noteDocs (work s))\<rparr>"
proof (induction xs arbitrary: s)
  case Nil
  then show ?case by simp
next
  case (Cons x xs)
  from Cons.prems obtain s1 where a: "purge_notes e (BySubject (s_id x)) s = Done s1"
    and b: "subjects_loop e xs s1 = Done s'"
    by (auto simp: andThen_Done_iff)
  from Cons.IH [OF b] purge_notes_Done(2) [OF a] show ?case
    by (auto intro: filter_cong)
qed

lemma Subject_deleteMany_Done:
  "Subject_deleteMany e b s = Done s' \<Longrightarrow>
     work s' = (work s)\<lparr>subjectDocs := filter (\<lambda>x. s_branch x \<noteq> b) (subjectDocs (work s))\<rparr>"
  by (auto simp: Subject_deleteMany_def split: if_splits)

lemma Branch_deleteMany_Done:
  "Branch_deleteMany e r s = Done s' \<Longrightarrow>
     work s' = (work s)\<lparr>branchDocs := filter (\<lambda>x. b_regulation x \<noteq> r) (branchDocs (work s))\<rparr>"
  by (auto simp: Branch_deleteMany_def split: if_splits)

lemma branches_loop_Done:
  "branches_loop e bs s = Done s' \<Longrightarrow>
     work s' = (work s)
       \<lparr>noteDocs := filter (\<lambda>n. n_branch n \<notin> b_id ` set bs \<and>
                                n_subject n \<notin> s_id ` {x \<in> set (subjectDocs (work s)). s_branch x \<in> b_id ` set bs})
                      (noteDocs (work s)),
        subjectDocs := filter (\<lambda>x. s_branch x \<notin> b_id ` set bs) (subjectDocs (work s))\<rparr>"
proof (induction bs arbitrary: s)
  case Nil
  then show ?case by simp
next
  case (Cons b bs)
  from Cons.prems obtain s1 s3 s4 where
    a: "purge_notes e (ByBranch (b_id b)) s = Done s1" and
    f: "\<not> db_fails e (Find Subject (ByBranch (b_id b)))" and
    c: "subjects_loop e (filter (\<lambda>x. s_branch x = b_id b) (subjectDocs (work s1))) s1 = Done s3" and
    d: "Subject_deleteMany e (b_id b) s3 = Done s4" and
    r: "branches_loop e bs s4 = Done s'"
    by (auto simp: andThen_Done_iff await_db_def split: if_splits)
  note w1 = purge_notes_Done(2) [OF a]
  note w3 = subjects_loop_Done [OF c]
  note w4 = Subject_deleteMany_Done [OF d]
  have n4: "noteDocs (work s4) =
      filter (\<lambda>n. n_branch n \<noteq> b_id b \<and>
                   n_subject n \<notin> s_id ` {x \<in> set (subjectDocs (work s)). s_branch x = b_id b})
        (noteDocs (work s))"
    unfolding w4 w3 w1 by (auto intro: filter_cong)
  have s4: "subjectDocs (work s4) = filter (\<lambda>x. s_branch x \<noteq> b_id b) (subjectDocs (work s))"
    unfolding w4 w3 w1 by simp
  have o4: "branchDocs (work s4) = branchDocs (work s)" "regulationDocs (work s4) = regulationDocs (work s)"
    "facultyDocs (work s4) = facultyDocs (work s)"
    unfolding w4 w3 w1 by simp_all
  from Cons.IH [OF r] show ?case
    unfolding n4 s4
    apply (intro db.equality)
    using o4 apply (simp_all add: n4 s4)
    apply (rule filter_cong)
     apply (auto)
    done
qed

subsection \<open>What a completed cascade leaves\<close>

lemma Regulation_findByIdAndDelete_Done:
  "Regulation_findByIdAndDelete e i s = Done s' \<Longrightarrow>
     work s' = (work s)\<lparr>regulationDocs := remove_first (\<lambda>x. r_id x = i) (regulationDocs (work s))\<rparr>"
  by (auto simp: Regulation_findByIdAndDelete_def split: if_splits)

lemma Branch_findByIdAndDelete_Done:
  "Branch_findByIdAndDelete e i s = Done s' \<Longrightarrow>
     work s' = (work s)\<lparr>branchDocs := remove_first (\<lambda>x. b_id x = i) (branchDocs (work s))\<rparr>"
  by (auto simp: Branch_findByIdAndDelete_def split: if_splits)

lemma Subject_findByIdAndDelete_Done:
  "Subject_findByIdAndDelete e i s = Done s' \<Longrightarrow>
     work s' = (work s)\<lparr>subjectDocs := remove_first (\<lambda>x. s_id x = i) (subjectDocs (work s))\<rparr>"
  by (auto simp: Subject_findByIdAndDelete_def split: if_splits)

lemma regulation_cascade_Done:
  assumes "regulation_cascade e i s = Done s'"
  shows "noteDocs (work s') =
           filter (\<lambda>n. n \<notin> set (desc_notes (work s) RegulationRoot i)) (noteDocs (work s))"
    and "subjectDocs (work s') =
           filter (\<lambda>x. x \<notin> set (desc_subjects (work s) RegulationRoot i)) (subjectDocs (work s))"
    and "branchDocs (work s') =
           filter (\<lambda>b. b \<notin> set (desc_branches (work s) RegulationRoot i)) (branchDocs (work s))"
    and "regulationDocs (work s') = remove_first (\<lambda>x. r_id x = i) (regulationDocs (work s))"
    and "facultyDocs (work s') = facultyDocs (work s)"
proof -
  from assms obtain s1 s3 s4 where
    a: "purge_notes e (ByRegulation i) s = Done s1" and
    b: "branches_loop e (filter (\<lambda>b. b_regulation b = i) (branchDocs (work s1))) s1 = Done s3" and
    c: "Branch_deleteMany e i s3 = Done s4" and
    d: "Regulation_findByIdAndDelete e i s4 = Done s'"
    unfolding regulation_cascade_def
    by (auto simp: andThen_Done_iff await_db_def split: if_splits)
  note w1 = purge_notes_Done(2) [OF a]
  note w3 = branches_loop_Done [OF b]
  note w4 = Branch_deleteMany_Done [OF c]
  note w5 = Regulation_findByIdAndDelete_Done [OF d]
  show "noteDocs (work s') =
           filter (\<lambda>n. n \<notin> set (desc_notes (work s) RegulationRoot i)) (noteDocs (work s))"
    unfolding w5 w4 w3 w1 by (auto intro!: filter_cong)
  show "subjectDocs (work s') =
           filter (\<lambda>x. x \<notin> set (desc_subjects (work s) RegulationRoot i)) (subjectDocs (work s))"
    unfolding w5 w4 w3 w1 by (auto intro!: filter_cong)
  show "branchDocs (work s') =
           filter (\<lambda>b. b \<notin> set (desc_branches (work s) RegulationRoot i)) (branchDocs (work s))"
    unfolding w5 w4 w3 w1 by (auto intro!: filter_cong)
  show "regulationDocs (work s') = remove_first (\<lambda>x. r_id x = i) (regulationDocs (work s))"
    unfolding w5 w4 w3 w1 by simp
  show "facultyDocs (work s') = facultyDocs (work s)"
    unfolding w5 w4 w3 w1 by simp
qed

lemma branch_cascade_Done:
  assumes "branch_cascade e i s = Done s'"
  shows "work s' = (work s)
           \<lparr>noteDocs := filter (\<lambda>n. n_branch n \<noteq> i) (noteDocs (work s)),
            subjectDocs := filter (\<lambda>x. s_branch x \<noteq> i) (subjectDocs (work s)),
            branchDocs := remove_first (\<lambda>x. b_id x = i) (branchDocs (work s))\<rparr>"
proof -
  from assms obtain s1 s2 where
    a: "purge_notes e (ByBranch i) s = Done s1" and
    b: "Subject_deleteMany e i s1 = Done s2" and
    c: "Branch_findByIdAndDelete e i s2 = Done s'"
    unfolding branch_cascade_def by (auto simp: andThen_Done_iff)
  show ?thesis
    unfolding Branch_findByIdAndDelete_Done [OF c] Subject_deleteMany_Done [OF b]
      purge_notes_Done(2) [OF a]
    by simp
qed

lemma subject_cascade_Done:
  assumes "subject_cascade e i s = Done s'"
  shows "work s' = (work s)
           \<lparr>noteDocs := filter (\<lambda>n. n_subject n \<noteq> i) (noteDocs (work s)),
            subjectDocs := remove_first (\<lambda>x. s_id x = i) (subjectDocs (work s))\<rparr>"
proof -
  from assms obtain s1 where
    a: "purge_notes e (BySubject i) s = Done s1" and
    c: "Subject_findByIdAndDelete e i s1 = Done s'"
    unfolding subject_cascade_def by (auto simp: andThen_Done_iff)
  show ?thesis
    unfolding Subject_findByIdAndDelete_Done [OF c] purge_notes_Done(2) [OF a]
    by simp
qed

lemma remove_first_distinct:
  "distinct (map f xs) \<Longrightarrow> x \<in> set (remove_first (\<lambda>x. f x = i) xs) \<Longrightarrow> f x \<noteq> i"
proof (induction xs)
  case Nil
  then show ?case by simp
next
  case (Cons a xs)
  show ?case
  proof (cases "f a = i")
    case True
    with Cons.prems show ?thesis by (auto simp: image_iff)
  next
    case False
    with Cons show ?thesis by auto
  qed
qed

lemma find_remove_first:
  "distinct (map f xs) \<Longrightarrow> find (\<lambda>x. f x = i) (remove_first (\<lambda>x. f x = i) xs) = None"
  by (auto simp: find_None_iff dest: remove_first_distinct)

lemma root_gone:
  assumes "unique_ids (work s)" and "cascade e k i s = Done s'"
  shows "\<not> root_present (work s') k i"
proof (cases k)
  case RegulationRoot
  with assms regulation_cascade_Done(4) [of e i s s'] show ?thesis
    by (simp add: unique_ids_def find_remove_first)
next
  case BranchRoot
  with assms branch_cascade_Done [of e i s s'] show ?thesis
    by (simp add: unique_ids_def find_remove_first)
next
  case SubjectRoot
  with assms subject_cascade_Done [of e i s s'] show ?thesis
    by (simp add: unique_ids_def find_remove_first)
qed

subsection \<open>The reply of a successful call\<close>

lemma deleteHierarchy_200:
  assumes "status (response (deleteHierarchy e w k rid)) = 200"
  obtains i s where "castId e rid = Some i" "root_present (store w) k i"
    "cascade e k i (startTransaction w) = Done s"
    "deleteHierarchy e w k rid = send (Response 200 (Message (ok_message k)))
       (s\<lparr>committed := work s, issued := issued s @ [Committed], txn := CommitCalled\<rparr>)"
proof (cases "castId e rid")
  case None
  with assms show ?thesis by (simp add: deleteHierarchy_unfold)
next
  case (Some i)
  let ?m = "cascade e k i (startTransaction w)"
  from assms Some have p: "root_present (store w) k i" and
    eq: "deleteHierarchy e w k rid = finish e (ok_message k) (error_message k) ?m"
    by (auto simp: deleteHierarchy_unfold split: if_splits)
  show ?thesis
  proof (cases ?m)
    case (Thrown s)
    from assms show ?thesis
      unfolding eq finish_cascade_Thrown [OF Thrown] by simp
  next
    case (Done s)
    show ?thesis
    proof (cases "db_fails e CommitTransaction")
      case True
      from assms show ?thesis
        unfolding eq finish_cascade_rejected [OF Done True] by simp
    next
      case False
      from finish_cascade_Done [OF Done False, of "ok_message k" "error_message k"] Some p Done eq that
      show ?thesis by metis
    qed
  qed
qed

subsection \<open>A failed transaction\<close>

text \<open>A failure before the commit: the route aborts and answers 500.\<close>

lemma fails_before_commit_aborted:
  assumes "fails_before_commit e w k rid"
  shows "response (deleteHierarchy e w k rid) = Response 500 (Message (error_message k)) \<and>
     store (after (deleteHierarchy e w k rid)) = store w \<and>
     (\<exists>done. events (deleteHierarchy e w k rid) = done @ [Aborted] \<and>
        Committed \<notin> set done \<and> Aborted \<notin> set done)"
proof -
  from assms obtain i where Some: "castId e rid = Some i"
    by (auto simp: fails_before_commit_def split: option.splits)
  show ?thesis
  proof (cases "db_fails e (FindById (root_model k) i)")
    case True
    with Some show ?thesis by (simp add: deleteHierarchy_unfold)
  next
    case False
    let ?m = "cascade e k i (startTransaction w)"
    from assms Some False have p: "root_present (store w) k i"
      and "\<exists>s. ?m = Thrown s"
      by (auto simp: fails_before_commit_def split: outcome.splits)
    then obtain s where Thrown: "?m = Thrown s" by blast
    from Some False p have eq:
      "deleteHierarchy e w k rid = finish e (ok_message k) (error_message k) ?m"
      by (simp add: deleteHierarchy_unfold)
    from step_cascade [of "startTransaction w" e k i] Thrown obtain evs where
      "committed s = store w" "issued s = evs" "Committed \<notin> set evs" "Aborted \<notin> set evs"
      by (auto simp: step_def startTransaction_def)
    then show ?thesis
      unfolding eq finish_cascade_Thrown [OF Thrown] by (simp add: send_def)
  qed
qed

text \<open>A rejected commit: the abort of the \<open>catch\<close> block is rejected too.\<close>

lemma commit_rejected_unanswered:
  assumes "commit_rejected e w k rid"
  shows "response (deleteHierarchy e w k rid) = Unanswered \<and>
     store (after (deleteHierarchy e w k rid)) = store w \<and>
     Committed \<notin> set (events (deleteHierarchy e w k rid)) \<and>
     Aborted \<notin> set (events (deleteHierarchy e w k rid))"
proof -
  from assms obtain i where Some: "castId e rid = Some i"
    by (auto simp: commit_rejected_def split: option.splits)
  let ?m = "cascade e k i (startTransaction w)"
  from assms Some have f: "\<not> db_fails e (FindById (root_model k) i)"
    and p: "root_present (store w) k i"
    and "\<exists>s. ?m = Done s \<and> db_fails e CommitTransaction"
    by (auto simp: commit_rejected_def split: outcome.splits)
  then obtain s where Done: "?m = Done s" and c: "db_fails e CommitTransaction" by blast
  from Some f p have eq:
    "deleteHierarchy e w k rid = finish e (ok_message k) (error_message k) ?m"
    by (simp add: deleteHierarchy_unfold)
  from step_cascade [of "startTransaction w" e k i] Done obtain evs where
    "committed s = store w" "issued s = evs" "Committed \<notin> set evs" "Aborted \<notin> set evs"
    by (auto simp: step_def startTransaction_def)
  then show ?thesis
    unfolding eq finish_cascade_rejected [OF Done c] by (simp add: reject_def)
qed

text \<open>Every call is of one of four kinds.\<close>

lemma deleteHierarchy_kinds:
  "fails_before_commit e w k rid \<or> commit_rejected e w k rid \<or>
   status (response (deleteHierarchy e w k rid)) = 200 \<or>
   (status (response (deleteHierarchy e w k rid)) = 400 \<or>
    status (response (deleteHierarchy e w k rid)) = 404) \<and>
   events (deleteHierarchy e w k rid) = [] \<and> after (deleteHierarchy e w k rid) = w"
proof (cases "castId e rid")
  case None
  then show ?thesis by (simp add: deleteHierarchy_unfold)
next
  case (Some i)
  show ?thesis
  proof (cases "db_fails e (FindById (root_model k) i)")
    case True
    with Some show ?thesis by (simp add: fails_before_commit_def)
  next
    case False
    show ?thesis
    proof (cases "root_present (store w) k i")
      case absent: False
      with Some False show ?thesis by (simp add: deleteHierarchy_unfold)
    next
      case True
      let ?m = "cascade e k i (startTransaction w)"
      from Some False True have eq:
        "deleteHierarchy e w k rid = finish e (ok_message k) (error_message k) ?m"
        by (simp add: deleteHierarchy_unfold)
      show ?thesis
      proof (cases ?m)
        case (Thrown s)
        with Some True show ?thesis by (simp add: fails_before_commit_def)
      next
        case (Done s)
        show ?thesis
        proof (cases "db_fails e CommitTransaction")
          case rejected: True
          with Some False True Done show ?thesis by (simp add: commit_rejected_def)
        next
          case accepted: False
          show ?thesis
            unfolding eq finish_cascade_Done [OF Done accepted] by simp
        qed
      qed
    qed
  qed
qed

subsection \<open>A call that does not commit\<close>

lemma deleteHierarchy_not_200:
  assumes "status (response (deleteHierarchy e w k rid)) \<noteq> 200"
  shows "Committed \<notin> set (events (deleteHierarchy e w k rid))"
    and "status (response (deleteHierarchy e w k rid)) = 400 \<or>
         status (response (deleteHierarchy e w k rid)) = 404 \<Longrightarrow>
         events (deleteHierarchy e w k rid) = []"
proof -
  have "Committed \<notin> set (events (deleteHierarchy e w k rid)) \<and>
     (status (response (deleteHierarchy e w k rid)) = 400 \<or>
         status (response (deleteHierarchy e w k rid)) = 404 \<longrightarrow>
         events (deleteHierarchy e w k rid) = [])"
    using deleteHierarchy_kinds [of e w k rid] assms
      fails_before_commit_aborted [of e w k rid] commit_rejected_unanswered [of e w k rid]
    by auto
  then show "Committed \<notin> set (events (deleteHierarchy e w k rid))"
    and "status (response (deleteHierarchy e w k rid)) = 400 \<or>
         status (response (deleteHierarchy e w k rid)) = 404 \<Longrightarrow>
         events (deleteHierarchy e w k rid) = []"
    by blast+
qed

subsection \<open>Removals\<close>

lemma removed_append [simp]: "removed (xs @ ys) = removed xs @ removed ys"
  by (induction xs rule: removed.induct) simp_all

lemma removed_DeleteObjects [simp]: "removed (map DeleteObject ks) = []"
  by (induction ks) simp_all

lemma removed_DeleteObjects' [simp]: "removed (map (\<lambda>n. DeleteObject (f n)) ns) = []"
  by (induction ns) simp_all

lemma removed_Removed [simp]: "removed (map (\<lambda>x. Removed m (f x)) xs) = map (\<lambda>x. (m, f x)) xs"
  by (induction xs) simp_all

lemma removed_mem: "(m, j) \<in> set (removed evs) \<longleftrightarrow> Removed m j \<in> set evs"
  by (induction evs rule: removed.induct) auto

lemma removed_before:
  assumes "sorted (map (rank \<circ> fst) (removed evs))"
    and "evs = pre @ Removed m j # post"
    and "Removed m' j' \<in> set evs" and "rank m' < rank m"
  shows "Removed m' j' \<in> set pre"
proof (rule ccontr)
  assume "Removed m' j' \<notin> set pre"
  with assms(2,3,4) have "Removed m' j' \<in> set post" by auto
  then have "(m', j') \<in> set (removed post)" by (simp add: removed_mem)
  moreover from assms(1,2) have "\<forall>p \<in> set (removed post). rank m \<le> rank (fst p)"
    by (simp add: sorted_append)
  ultimately show False using assms(4) by fastforce
qed

lemma sorted_one_layer: "sorted (map (rank \<circ> fst) (map (Pair m) xs))"
  by (induction xs) simp_all

lemma layers_sorted:
  assumes "layers N S B rem"
  shows "sorted (map (rank \<circ> fst) rem)"
proof -
  from assms obtain ns ss bs rs where
    "rem = map (Pair Note) ns @ map (Pair Subject) ss @ map (Pair Branch) bs
             @ map (Pair Regulation) rs"
    unfolding layers_def by blast
  then show ?thesis
    using sorted_one_layer [of Note ns] sorted_one_layer [of Subject ss]
      sorted_one_layer [of Branch bs] sorted_one_layer [of Regulation rs]
    by (auto simp: sorted_append)
qed

lemma layers_notes_covered:
  assumes "layers N S B rem" and "(m, j) \<in> set rem" and "m \<noteq> Note" and "n \<in> N"
  shows "(Note, n) \<in> set rem"
  using assms by (auto simp: layers_def)

lemma layers_subjects_covered:
  assumes "layers N S B rem" and "(m, j) \<in> set rem" and "m = Branch \<or> m = Regulation" and "x \<in> S"
  shows "(Subject, x) \<in> set rem"
  using assms by (auto simp: layers_def)

lemma layers_branches_covered:
  assumes "layers N S B rem" and "(Regulation, j) \<in> set rem" and "b \<in> B"
  shows "(Branch, b) \<in> set rem"
  using assms by (auto simp: layers_def)

lemma layers_0: "layers N S B []"
  by (simp add: layers_def)

lemma layers_1: "layers N S B (map (Pair Note) ns)"
  unfolding layers_def by (rule exI [of _ ns], rule exI [of _ "[]"], rule exI [of _ "[]"], rule exI [of _ "[]"]) simp

lemma layers_2: "N \<subseteq> set ns \<Longrightarrow> layers N S B (map (Pair Note) ns @ map (Pair Subject) ss)"
  unfolding layers_def by (rule exI [of _ ns], rule exI [of _ ss], rule exI [of _ "[]"], rule exI [of _ "[]"]) simp

lemma layers_3:
  "N \<subseteq> set ns \<Longrightarrow> S \<subseteq> set ss \<Longrightarrow>
     layers N S B (map (Pair Note) ns @ map (Pair Subject) ss @ map (Pair Branch) bs)"
  unfolding layers_def by (rule exI [of _ ns], rule exI [of _ ss], rule exI [of _ bs], rule exI [of _ "[]"]) simp

lemma layers_4:
  "N \<subseteq> set ns \<Longrightarrow> S \<subseteq> set ss \<Longrightarrow> B \<subseteq> set bs \<Longrightarrow>
     layers N S B (map (Pair Note) ns @ map (Pair Subject) ss @ map (Pair Branch) bs
                     @ map (Pair Regulation) rs)"
  unfolding layers_def by (rule exI [of _ ns], rule exI [of _ ss], rule exI [of _ bs], rule exI [of _ rs]) simp

subsection \<open>A purge that finds nothing\<close>

lemma purge_notes_nothing:
  assumes "\<forall>n \<in> set (noteDocs (work s)). \<not> note_matches q n"
  shows "purge_notes e q s = Done s \<or> purge_notes e q s = Thrown s"
proof -
  from assms have f: "filter (note_matches q) (noteDocs (work s)) = []"
    by (simp add: filter_empty_conv)
  from assms have g: "filter (\<lambda>n. \<not> note_matches q n) (noteDocs (work s)) = noteDocs (work s)"
    by (simp add: filter_id_conv)
  show ?thesis
    by (simp add: purge_notes_def await_db_def Note_deleteMany_def f g)
qed

lemma subjects_loop_nothing:
  assumes "\<forall>n \<in> set (noteDocs (work s)). n_subject n \<notin> s_id ` set xs"
  shows "subjects_loop e xs s = Done s \<or> subjects_loop e xs s = Thrown s"
  using assms
proof (induction xs)
  case Nil
  show ?case by simp
next
  case (Cons x xs)
  from Cons.prems have "\<forall>n \<in> set (noteDocs (work s)). \<not> note_matches (BySubject (s_id x)) n"
    by auto
  from purge_notes_nothing [OF this, of e] Cons show ?case by auto
qed

lemma consistent_desc_notes:
  assumes "consistent d"
  shows "desc_notes d RegulationRoot i = filter (note_matches (ByRegulation i)) (noteDocs d)"
    and "desc_notes d BranchRoot i = filter (note_matches (ByBranch i)) (noteDocs d)"
    and "desc_notes d SubjectRoot i = filter (note_matches (BySubject i)) (noteDocs d)"
  using assms by (auto simp: consistent_def intro!: filter_cong)

subsection \<open>The loop over branches whose notes are gone\<close>

lemma Subject_deleteMany_cases:
  "Subject_deleteMany e b s = Thrown s \<or>
   Subject_deleteMany e b s =
     Done (s\<lparr>work := (work s)\<lparr>subjectDocs := filter (\<lambda>x. s_branch x \<noteq> b) (subjectDocs (work s))\<rparr>,
             issued := issued s @ map (\<lambda>x. Removed Subject (s_id x))
                                     (filter (\<lambda>x. s_branch x = b) (subjectDocs (work s)))\<rparr>)"
  by (simp add: Subject_deleteMany_def)

lemma branches_loop_clean:
  assumes "\<forall>n \<in> set (noteDocs (work s)).
             n_branch n \<notin> b_id ` set bs \<and>
             (\<forall>x \<in> set (subjectDocs (work s)). s_branch x \<in> b_id ` set bs \<longrightarrow> n_subject n \<noteq> s_id x)"
  shows "\<exists>ss. removed (issued (state_of (branches_loop e bs s))) =
                 removed (issued s) @ map (Pair Subject) ss \<and>
              (\<forall>s'. branches_loop e bs s = Done s' \<longrightarrow>
                 s_id ` {x \<in> set (subjectDocs (work s)). s_branch x \<in> b_id ` set bs} \<subseteq> set ss)"
  using assms
proof (induction bs arbitrary: s)
  case Nil
  have "removed (issued (state_of (branches_loop e [] s))) = removed (issued s) @ map (Pair Subject) []"
    by simp
  then show ?case by (intro exI [of _ "[]"]) simp
next
  case (Cons b bs)
  let ?xs = "filter (\<lambda>x. s_branch x = b_id b) (subjectDocs (work s))"
  let ?s4 = "s\<lparr>work := (work s)\<lparr>subjectDocs := filter (\<lambda>x. s_branch x \<noteq> b_id b) (subjectDocs (work s))\<rparr>,
               issued := issued s @ map (\<lambda>x. Removed Subject (s_id x)) ?xs\<rparr>"
  have stop: ?case if "branches_loop e (b # bs) s = Thrown s"
  proof -
    from that have "removed (issued (state_of (branches_loop e (b # bs) s))) =
        removed (issued s) @ map (Pair Subject) []" by simp
    with that show ?thesis by (intro exI [of _ "[]"]) simp
  qed
  from Cons.prems have p1: "\<forall>n \<in> set (noteDocs (work s)). \<not> note_matches (ByBranch (b_id b)) n"
    by auto
  from Cons.prems have p2: "\<forall>n \<in> set (noteDocs (work s)). n_subject n \<notin> s_id ` set ?xs"
    by auto
  have "branches_loop e (b # bs) s = Thrown s \<or>
        branches_loop e (b # bs) s = branches_loop e bs ?s4"
    using purge_notes_nothing [OF p1, of e]
  proof
    assume "purge_notes e (ByBranch (b_id b)) s = Thrown s"
    then show ?thesis by simp
  next
    assume a: "purge_notes e (ByBranch (b_id b)) s = Done s"
    show ?thesis
    proof (cases "db_fails e (Find Subject (ByBranch (b_id b)))")
      case True
      with a show ?thesis by (simp add: await_db_def)
    next
      case False
      from subjects_loop_nothing [OF p2, of e] show ?thesis
      proof
        assume "subjects_loop e ?xs s = Thrown s"
        with a False show ?thesis by (simp add: await_db_def)
      next
        assume c: "subjects_loop e ?xs s = Done s"
        from Subject_deleteMany_cases [of e "b_id b" s] show ?thesis
        proof
          assume "Subject_deleteMany e (b_id b) s = Thrown s"
          with a False c show ?thesis by (simp add: await_db_def)
        next
          assume "Subject_deleteMany e (b_id b) s = Done ?s4"
          with a False c show ?thesis by (simp add: await_db_def)
        qed
      qed
    qed
  qed
  then consider (thrown) "branches_loop e (b # bs) s = Thrown s"
    | (on) "branches_loop e (b # bs) s = branches_loop e bs ?s4"
    by blast
  then show ?case
  proof cases
    case thrown
    then show ?thesis by (rule stop)
  next
    case on
    have "\<forall>n \<in> set (noteDocs (work ?s4)).
             n_branch n \<notin> b_id ` set bs \<and>
             (\<forall>x \<in> set (subjectDocs (work ?s4)). s_branch x \<in> b_id ` set bs \<longrightarrow> n_subject n \<noteq> s_id x)"
      using Cons.prems by auto
    from Cons.IH [OF this] obtain ss where
      r: "removed (issued (state_of (branches_loop e bs ?s4))) =
            removed (issued ?s4) @ map (Pair Subject) ss" and
      c: "\<forall>s'. branches_loop e bs ?s4 = Done s' \<longrightarrow>
            s_id ` {x \<in> set (subjectDocs (work ?s4)). s_branch x \<in> b_id ` set bs} \<subseteq> set ss"
      by blast
    have "removed (issued (state_of (branches_loop e (b # bs) s))) =
        removed (issued s) @ map (Pair Subject) (map s_id ?xs @ ss)"
      unfolding on r by (simp add: comp_def)
    moreover have "\<forall>s'. branches_loop e (b # bs) s = Done s' \<longrightarrow>
        s_id ` {x \<in> set (subjectDocs (work s)). s_branch x \<in> b_id ` set (b # bs)}
          \<subseteq> set (map s_id ?xs @ ss)"
      unfolding on using c by auto
    ultimately show ?thesis by blast
  qed
qed

subsection \<open>The layers of the three cascades\<close>

lemma purge_notes_removed_Thrown:
  "purge_notes e q s = Thrown s' \<Longrightarrow> removed (issued s') = removed (issued s)"
  by (drule purge_notes_Thrown) auto

lemma purge_notes_removed_Done:
  "purge_notes e q s = Done s' \<Longrightarrow>
     removed (issued s') =
       removed (issued s) @ map (Pair Note) (map n_id (filter (note_matches q) (noteDocs (work s))))"
  by (drule purge_notes_Done(3)) (simp add: comp_def)

lemma Branch_deleteMany_cases:
  "Branch_deleteMany e r s = Thrown s \<or>
   (\<exists>s'. Branch_deleteMany e r s = Done s' \<and> work s' = (work s)\<lparr>branchDocs := filter (\<lambda>x. b_regulation x \<noteq> r) (branchDocs (work s))\<rparr> \<and>
      removed (issued s') = removed (issued s) @
        map (Pair Branch) (map b_id (filter (\<lambda>x. b_regulation x = r) (branchDocs (work s)))))"
  by (simp add: Branch_deleteMany_def comp_def)

lemma Subject_deleteMany_cases':
  "Subject_deleteMany e b s = Thrown s \<or>
   (\<exists>s'. Subject_deleteMany e b s = Done s' \<and> work s' = (work s)\<lparr>subjectDocs := filter (\<lambda>x. s_branch x \<noteq> b) (subjectDocs (work s))\<rparr> \<and>
      removed (issued s') = removed (issued s) @
        map (Pair Subject) (map s_id (filter (\<lambda>x. s_branch x = b) (subjectDocs (work s)))))"
  by (simp add: Subject_deleteMany_def comp_def)

lemma Regulation_findByIdAndDelete_cases:
  "Regulation_findByIdAndDelete e i s = Thrown s \<or>
   (\<exists>s'. Regulation_findByIdAndDelete e i s = Done s' \<and>
      removed (issued s') = removed (issued s) @
        map (Pair Regulation) (if \<exists>x \<in> set (regulationDocs (work s)). r_id x = i then [i] else []))"
  by (simp add: Regulation_findByIdAndDelete_def)

lemma Branch_findByIdAndDelete_cases:
  "Branch_findByIdAndDelete e i s = Thrown s \<or>
   (\<exists>s'. Branch_findByIdAndDelete e i s = Done s' \<and>
      removed (issued s') = removed (issued s) @
        map (Pair Branch) (if \<exists>x \<in> set (branchDocs (work s)). b_id x = i then [i] else []))"
  by (simp add: Branch_findByIdAndDelete_def)

lemma Subject_findByIdAndDelete_cases:
  "Subject_findByIdAndDelete e i s = Thrown s \<or>
   (\<exists>s'. Subject_findByIdAndDelete e i s = Done s' \<and>
      removed (issued s') = removed (issued s) @
        map (Pair Subject) (if \<exists>x \<in> set (subjectDocs (work s)). s_id x = i then [i] else []))"
  by (simp add: Subject_findByIdAndDelete_def)

lemma subject_cascade_layers:
  assumes "issued s = []"
  shows "layers (n_id ` set (desc_notes (work s) SubjectRoot i)) S B
           (removed (issued (state_of (subject_cascade e i s))))"
proof (cases "purge_notes e (BySubject i) s")
  case (Thrown s1)
  with purge_notes_removed_Thrown [OF Thrown] assms show ?thesis
    by (simp add: subject_cascade_def layers_0)
next
  case (Done s1)
  let ?ns = "map n_id (filter (note_matches (BySubject i)) (noteDocs (work s)))"
  from purge_notes_removed_Done [OF Done] assms
  have r1: "removed (issued s1) = map (Pair Note) ?ns" by simp
  have N: "n_id ` set (desc_notes (work s) SubjectRoot i) \<subseteq> set ?ns"
    by auto
  from Subject_findByIdAndDelete_cases [of e i s1] show ?thesis
  proof (elim disjE exE conjE)
    assume "Subject_findByIdAndDelete e i s1 = Thrown s1"
    with Done have "state_of (subject_cascade e i s) = s1"
      by (simp add: subject_cascade_def)
    then show ?thesis by (simp only: r1 layers_1)
  next
    fix s'
    assume "Subject_findByIdAndDelete e i s1 = Done s'"
      and r2: "removed (issued s') = removed (issued s1) @
        map (Pair Subject) (if \<exists>x \<in> set (subjectDocs (work s1)). s_id x = i then [i] else [])"
    with Done have "state_of (subject_cascade e i s) = s'"
      by (simp add: subject_cascade_def)
    then show ?thesis by (simp only: r2 r1 layers_2 [OF N])
  qed
qed

lemma branch_cascade_layers:
  assumes "issued s = []" and "consistent (work s)"
  shows "layers (n_id ` set (desc_notes (work s) BranchRoot i))
           (s_id ` set (desc_subjects (work s) BranchRoot i)) B
           (removed (issued (state_of (branch_cascade e i s))))"
proof (cases "purge_notes e (ByBranch i) s")
  case (Thrown s1)
  with purge_notes_removed_Thrown [OF Thrown] assms show ?thesis
    by (simp add: branch_cascade_def layers_0)
next
  case (Done s1)
  let ?ns = "map n_id (filter (note_matches (ByBranch i)) (noteDocs (work s)))"
  let ?ss = "map s_id (filter (\<lambda>x. s_branch x = i) (subjectDocs (work s)))"
  from purge_notes_removed_Done [OF Done] assms
  have r1: "removed (issued s1) = map (Pair Note) ?ns" by simp
  have w1: "subjectDocs (work s1) = subjectDocs (work s)"
    using purge_notes_Done(2) [OF Done] by simp
  have N: "n_id ` set (desc_notes (work s) BranchRoot i) \<subseteq> set ?ns"
    unfolding consistent_desc_notes(2) [OF assms(2)] by simp
  have S: "s_id ` set (desc_subjects (work s) BranchRoot i) \<subseteq> set ?ss"
    by simp
  from Subject_deleteMany_cases' [of e i s1] show ?thesis
  proof (elim disjE exE conjE)
    assume "Subject_deleteMany e i s1 = Thrown s1"
    with Done have "state_of (branch_cascade e i s) = s1"
      by (simp add: branch_cascade_def)
    then show ?thesis by (simp only: r1 layers_1)
  next
    fix s2
    assume d: "Subject_deleteMany e i s1 = Done s2"
      and r2: "removed (issued s2) = removed (issued s1) @
        map (Pair Subject) (map s_id (filter (\<lambda>x. s_branch x = i) (subjectDocs (work s1))))"
    from Branch_findByIdAndDelete_cases [of e i s2] show ?thesis
    proof (elim disjE exE conjE)
      assume "Branch_findByIdAndDelete e i s2 = Thrown s2"
      with Done d have "state_of (branch_cascade e i s) = s2"
        by (simp add: branch_cascade_def)
      then show ?thesis by (simp only: r2 r1 w1 layers_2 [OF N])
    next
      fix s'
      assume "Branch_findByIdAndDelete e i s2 = Done s'"
        and r3: "removed (issued s') = removed (issued s2) @
          map (Pair Branch) (if \<exists>x \<in> set (branchDocs (work s2)). b_id x = i then [i] else [])"
      with Done d have "state_of (branch_cascade e i s) = s'"
        by (simp add: branch_cascade_def)
      then show ?thesis by (simp only: r3 r2 r1 w1 layers_3 [OF N S] append_assoc)
    qed
  qed
qed

lemma regulation_cascade_layers:
  assumes "issued s = []" and "consistent (work s)"
  shows "layers (n_id ` set (desc_notes (work s) RegulationRoot i))
           (s_id ` set (desc_subjects (work s) RegulationRoot i))
           (b_id ` set (desc_branches (work s) RegulationRoot i))
           (removed (issued (state_of (regulation_cascade e i s))))"
proof (cases "purge_notes e (ByRegulation i) s")
  case (Thrown s1)
  with purge_notes_removed_Thrown [OF Thrown] assms show ?thesis
    by (simp add: regulation_cascade_def layers_0)
next
  case (Done s1)
  let ?ns = "map n_id (filter (note_matches (ByRegulation i)) (noteDocs (work s)))"
  let ?B = "filter (\<lambda>b. b_regulation b = i) (branchDocs (work s1))"
  let ?bs = "map b_id (filter (\<lambda>b. b_regulation b = i) (branchDocs (work s)))"
  from purge_notes_removed_Done [OF Done] assms
  have r1: "removed (issued s1) = map (Pair Note) ?ns" by simp
  note w1 = purge_notes_Done(2) [OF Done]
  have B: "?B = desc_branches (work s) RegulationRoot i"
    unfolding w1 by simp
  have N: "n_id ` set (desc_notes (work s) RegulationRoot i) \<subseteq> set ?ns"
    unfolding consistent_desc_notes(1) [OF assms(2)] by simp
  have Bc: "b_id ` set (desc_branches (work s) RegulationRoot i) \<subseteq> set ?bs"
    by simp
  show ?thesis
  proof (cases "db_fails e (Find Branch (ByRegulation i))")
    case True
    with Done have "state_of (regulation_cascade e i s) = s1"
      by (simp add: regulation_cascade_def await_db_def)
    then show ?thesis by (simp only: r1 layers_1)
  next
    case False
    have clean: "\<forall>n \<in> set (noteDocs (work s1)).
             n_branch n \<notin> b_id ` set ?B \<and>
             (\<forall>x \<in> set (subjectDocs (work s1)). s_branch x \<in> b_id ` set ?B \<longrightarrow> n_subject n \<noteq> s_id x)"
      using assms(2) unfolding w1 consistent_def by fastforce
    from branches_loop_clean [OF clean, of e] obtain ss where
      r3: "removed (issued (state_of (branches_loop e ?B s1))) =
             removed (issued s1) @ map (Pair Subject) ss" and
      c3: "\<forall>s'. branches_loop e ?B s1 = Done s' \<longrightarrow>
             s_id ` {x \<in> set (subjectDocs (work s1)). s_branch x \<in> b_id ` set ?B} \<subseteq> set ss"
      by blast
    show ?thesis
    proof (cases "branches_loop e ?B s1")
      case (Thrown s3)
      with Done False have "state_of (regulation_cascade e i s) = s3"
        by (simp add: regulation_cascade_def await_db_def)
      moreover from r3 Thrown have "removed (issued s3) = removed (issued s1) @ map (Pair Subject) ss"
        by simp
      ultimately show ?thesis by (simp only: r1 layers_2 [OF N])
    next
      case loop: (Done s3)
      from r3 loop have r3': "removed (issued s3) = removed (issued s1) @ map (Pair Subject) ss"
        by simp
      from c3 loop have S: "s_id ` set (desc_subjects (work s) RegulationRoot i) \<subseteq> set ss"
        unfolding B w1 by simp
      note w3 = branches_loop_Done [OF loop]
      have b3: "branchDocs (work s3) = branchDocs (work s)"
        unfolding w3 w1 by simp
      from Branch_deleteMany_cases [of e i s3] show ?thesis
      proof (elim disjE exE conjE)
        assume "Branch_deleteMany e i s3 = Thrown s3"
        with Done False loop have "state_of (regulation_cascade e i s) = s3"
          by (simp add: regulation_cascade_def await_db_def)
        then show ?thesis by (simp only: r3' r1 layers_2 [OF N])
      next
        fix s4
        assume d: "Branch_deleteMany e i s3 = Done s4"
          and r4: "removed (issued s4) = removed (issued s3) @
             map (Pair Branch) (map b_id (filter (\<lambda>x. b_regulation x = i) (branchDocs (work s3))))"
        from Regulation_findByIdAndDelete_cases [of e i s4] show ?thesis
        proof (elim disjE exE conjE)
          assume "Regulation_findByIdAndDelete e i s4 = Thrown s4"
          with Done False loop d have "state_of (regulation_cascade e i s) = s4"
            by (simp add: regulation_cascade_def await_db_def)
          then show ?thesis by (simp only: r4 r3' r1 b3 layers_3 [OF N S] append_assoc)
        next
          fix s'
          assume "Regulation_findByIdAndDelete e i s4 = Done s'"
            and r5: "removed (issued s') = removed (issued s4) @
              map (Pair Regulation) (if \<exists>x \<in> set (regulationDocs (work s4)). r_id x = i then [i] else [])"
          with Done False loop d have "state_of (regulation_cascade e i s) = s'"
            by (simp add: regulation_cascade_def await_db_def)
          then show ?thesis by (simp only: r5 r4 r3' r1 b3 layers_4 [OF N S Bc] append_assoc)
        qed
      qed
    qed
  qed
qed

lemma cascade_layers:
  assumes "issued s = []" and "consistent (work s)"
  shows "layers (n_id ` set (desc_notes (work s) k i))
           (s_id ` set (desc_subjects (work s) k i))
           (b_id ` set (desc_branches (work s) k i))
           (removed (issued (state_of (cascade e k i s))))"
proof (cases k)
  case RegulationRoot
  with regulation_cascade_layers [OF assms] show ?thesis by simp
next
  case BranchRoot
  with branch_cascade_layers [OF assms] show ?thesis by simp
next
  case SubjectRoot
  with subject_cascade_layers [OF assms(1)] show ?thesis by simp
qed

lemma cascade_root_last:
  assumes "cascade e k i s = Done s'" and "root_present (work s) k i"
  shows "removed (issued s') \<noteq> [] \<and> last (removed (issued s')) = (root_model k, i)"
proof (cases k)
  case RegulationRoot
  with assms(1) obtain s1 s3 s4 where
    a: "purge_notes e (ByRegulation i) s = Done s1" and
    b: "branches_loop e (filter (\<lambda>b. b_regulation b = i) (branchDocs (work s1))) s1 = Done s3" and
    c: "Branch_deleteMany e i s3 = Done s4" and
    d: "Regulation_findByIdAndDelete e i s4 = Done s'"
    by (auto simp: regulation_cascade_def andThen_Done_iff await_db_def split: if_splits)
  have "regulationDocs (work s4) = regulationDocs (work s)"
    unfolding Branch_deleteMany_Done [OF c] branches_loop_Done [OF b] purge_notes_Done(2) [OF a]
    by simp
  with assms(2) RegulationRoot have "\<exists>x \<in> set (regulationDocs (work s4)). r_id x = i"
    by (auto simp: find_None_iff)
  with d RegulationRoot show ?thesis
    by (auto simp: Regulation_findByIdAndDelete_def split: if_splits)
next
  case BranchRoot
  with assms(1) obtain s1 s2 where
    a: "purge_notes e (ByBranch i) s = Done s1" and
    b: "Subject_deleteMany e i s1 = Done s2" and
    c: "Branch_findByIdAndDelete e i s2 = Done s'"
    by (auto simp: branch_cascade_def andThen_Done_iff)
  have "branchDocs (work s2) = branchDocs (work s)"
    unfolding Subject_deleteMany_Done [OF b] purge_notes_Done(2) [OF a] by simp
  with assms(2) BranchRoot have "\<exists>x \<in> set (branchDocs (work s2)). b_id x = i"
    by (auto simp: find_None_iff)
  with c BranchRoot show ?thesis
    by (auto simp: Branch_findByIdAndDelete_def split: if_splits)
next
  case SubjectRoot
  with assms(1) obtain s1 where
    a: "purge_notes e (BySubject i) s = Done s1" and
    c: "Subject_findByIdAndDelete e i s1 = Done s'"
    by (auto simp: subject_cascade_def andThen_Done_iff)
  have "subjectDocs (work s1) = subjectDocs (work s)"
    unfolding purge_notes_Done(2) [OF a] by simp
  with assms(2) SubjectRoot have "\<exists>x \<in> set (subjectDocs (work s1)). s_id x = i"
    by (auto simp: find_None_iff)
  with c SubjectRoot show ?thesis
    by (auto simp: Subject_findByIdAndDelete_def split: if_splits)
qed

lemma deleteHierarchy_layers:
  assumes "consistent (store w)" and "castId e rid = Some i"
  shows "layers (n_id ` set (desc_notes (store w) k i))
           (s_id ` set (desc_subjects (store w) k i))
           (b_id ` set (desc_branches (store w) k i))
           (removed (events (deleteHierarchy e w k rid)))"
proof -
  let ?s0 = "startTransaction w"
  let ?m = "cascade e k i ?s0"
  have s0: "issued ?s0 = []" "work ?s0 = store w"
    by (simp_all add: startTransaction_def)
  have "removed (events (deleteHierarchy e w k rid)) = [] \<or>
        removed (events (deleteHierarchy e w k rid)) = removed (issued (state_of ?m))"
  proof (cases "db_fails e (FindById (root_model k) i) \<or> \<not> root_present (store w) k i")
    case True
    with assms(2) have "events (deleteHierarchy e w k rid) = [Aborted] \<or>
        events (deleteHierarchy e w k rid) = []"
      by (auto simp: deleteHierarchy_unfold)
    then show ?thesis by auto
  next
    case False
    with assms(2) have eq:
      "deleteHierarchy e w k rid = finish e (ok_message k) (error_message k) ?m"
      by (simp add: deleteHierarchy_unfold)
    show ?thesis
    proof (cases ?m)
      case (Thrown s)
      show ?thesis
        unfolding eq finish_cascade_Thrown [OF Thrown] by (simp add: send_def Thrown)
    next
      case (Done s)
      show ?thesis
      proof (cases "db_fails e CommitTransaction")
        case True
        show ?thesis
          unfolding eq finish_cascade_rejected [OF Done True] by (simp add: reject_def Done)
      next
        case False
        show ?thesis
          unfolding eq finish_cascade_Done [OF Done False] by (simp add: send_def Done)
      qed
    qed
  qed
  with cascade_layers [of ?s0 k i e] assms(1) s0 show ?thesis
    by (auto simp: layers_0)
qed

section \<open>The archive\<close>

lemma promise_all_None: "promise_all ps = None \<longleftrightarrow> None \<in> set ps"
  by (induction ps rule: promise_all.induct) (auto split: option.splits)

lemma promise_all_map_Some: "promise_all (map Some xs) = Some xs"
  by (induction xs) simp_all

lemma promise_all_SomeD: "promise_all ps = Some xs \<Longrightarrow> ps = map Some xs"
  by (induction ps arbitrary: xs rule: promise_all.induct) (auto split: option.splits)

lemma promise_all_Some: "promise_all ps = Some xs \<longleftrightarrow> ps = map Some xs"
  using promise_all_map_Some promise_all_SomeD by blast

lemma zip_file_names: "fst ` set (zip_file name data z) = insert name (fst ` set z)"
  by (induction z rule: zip_file.induct) auto

lemma zip_file_new: "name \<notin> fst ` set z \<Longrightarrow> zip_file name data z = z @ [(name, data)]"
  by (induction z rule: zip_file.induct) auto

lemma add_files_names:
  "fst ` set (add_files fs z) = fst ` set z \<union> {name. \<exists>buffer. Some (buffer, name) \<in> set fs}"
  by (induction fs z rule: add_files.induct) (auto simp: zip_file_names)

lemma zip_file_entries: "set (zip_file name data z) \<subseteq> insert (name, data) (set z)"
  by (induction z rule: zip_file.induct) auto

lemma add_files_entries:
  "set (add_files fs z) \<subseteq> set z \<union> {(name, buffer). Some (buffer, name) \<in> set fs}"
proof (induction fs z rule: add_files.induct)
  case (3 buffer name fs z)
  with zip_file_entries [of name buffer z] show ?case by auto
qed auto

lemma add_files_distinct_names:
  "distinct (map snd fs) \<Longrightarrow> fst ` set z \<inter> snd ` set fs = {} \<Longrightarrow>
     add_files (map Some fs) z = z @ map (\<lambda>(buffer, name). (name, buffer)) fs"
proof (induction fs arbitrary: z)
  case Nil
  then show ?case by simp
next
  case (Cons f fs)
  obtain buffer name where f: "f = (buffer, name)" by (cases f)
  from Cons.prems f have new: "name \<notin> fst ` set z" by auto
  from Cons.prems f have "fst ` set (z @ [(name, buffer)]) \<inter> snd ` set fs = {}"
    by auto
  with Cons.IH [of "z @ [(name, buffer)]"] Cons.prems(1) f new show ?case
    by (simp add: zip_file_new)
qed

lemma download_zip_200:
  assumes "download_zip e w noteIds = Response 200 (ZipBuffer z)"
  obtains filesData where
    "map (fileData e (blobs w)) (Note_find_in (store w) noteIds) = map Some filesData"
    "z = add_files filesData []"
  using assms
  by (auto simp: download_zip_def Let_def promise_all_Some split: if_splits option.splits)

lemma fileData_cases:
  "fileData e bucket n = Some f \<longleftrightarrow>
     (fileKey n = [] \<and> f = None) \<or>
     (fileKey n \<noteq> [] \<and> (\<exists>buffer. fetchBuffer e bucket (fileKey n) = Some buffer \<and>
        f = Some (buffer, title n @ ''.pdf'')))"
  by (auto simp: fileData_def split: option.splits)

lemma staged_files:
  assumes "map (fileData e bucket) found = map Some filesData"
  shows "Some (buffer, name) \<in> set filesData \<longleftrightarrow>
     (\<exists>n \<in> set found. fileKey n \<noteq> [] \<and> name = title n @ ''.pdf'' \<and>
        fetchBuffer e bucket (fileKey n) = Some buffer)"
  using assms
proof (induction found arbitrary: filesData)
  case Nil
  then show ?case by simp
next
  case (Cons n found)
  then obtain f fs where fs: "filesData = f # fs" "fileData e bucket n = Some f"
    "map (fileData e bucket) found = map Some fs"
    by (cases filesData) auto
  from Cons.IH [OF fs(3)] fs(1,2) show ?case
    by (auto simp: fileData_cases)
qed

lemma archive_names:
  assumes "download_zip e w noteIds = Response 200 (ZipBuffer z)"
  shows "fst ` set z = (\<lambda>n. title n @ ''.pdf'') `
        {n \<in> set (Note_find_in (store w) noteIds). fileKey n \<noteq> []}"
proof -
  from assms obtain filesData where
    f: "map (fileData e (blobs w)) (Note_find_in (store w) noteIds) = map Some filesData"
    and z: "z = add_files filesData []"
    by (rule download_zip_200)
  have ok: "\<exists>buffer. fetchBuffer e (blobs w) (fileKey n) = Some buffer"
    if "n \<in> set (Note_find_in (store w) noteIds)" "fileKey n \<noteq> []" for n
  proof -
    from that(1) f have "fileData e (blobs w) n \<in> Some ` set filesData"
      by (metis image_eqI image_set)
    with that(2) show ?thesis by (auto simp: fileData_cases)
  qed
  show ?thesis
  proof (intro set_eqI iffI)
    fix name
    assume "name \<in> fst ` set z"
    then obtain buffer where "Some (buffer, name) \<in> set filesData"
      unfolding z add_files_names by auto
    then show "name \<in> (\<lambda>n. title n @ ''.pdf'') `
        {n \<in> set (Note_find_in (store w) noteIds). fileKey n \<noteq> []}"
      by (auto simp: staged_files [OF f])
  next
    fix name
    assume "name \<in> (\<lambda>n. title n @ ''.pdf'') `
        {n \<in> set (Note_find_in (store w) noteIds). fileKey n \<noteq> []}"
    then obtain n where n: "n \<in> set (Note_find_in (store w) noteIds)" "fileKey n \<noteq> []"
      "name = title n @ ''.pdf''"
      by auto
    from ok [OF n(1,2)] obtain buffer where "fetchBuffer e (blobs w) (fileKey n) = Some buffer"
      by blast
    with n have "Some (buffer, name) \<in> set filesData"
      unfolding staged_files [OF f] by blast
    then show "name \<in> fst ` set z"
      unfolding z add_files_names by auto
  qed
qed




lemma same_id_same_doc:
  assumes "distinct (map f xs)" and "x \<in> set xs" and "y \<in> set xs" and "f x = f y"
  shows "x = y"
  using assms by (meson distinct_map inj_onD)

lemma found_selected:
  assumes "unique_ids d" and "set ns \<subseteq> set (noteDocs d)"
  shows "set (Note_find_in d (map n_id ns)) = set ns"
    and "distinct (Note_find_in d (map n_id ns))"
proof -
  from assms(1) have di: "distinct (map n_id (noteDocs d))"
    by (simp add: unique_ids_def)
  show "set (Note_find_in d (map n_id ns)) = set ns"
  proof (intro set_eqI iffI)
    fix n
    assume "n \<in> set (Note_find_in d (map n_id ns))"
    then obtain m where "n \<in> set (noteDocs d)" "m \<in> set ns" "n_id n = n_id m"
      by (auto simp: Note_find_in_def)
    with assms(2) same_id_same_doc [OF di, of n m] show "n \<in> set ns" by auto
  next
    fix n
    assume "n \<in> set ns"
    with assms(2) show "n \<in> set (Note_find_in d (map n_id ns))"
      by (auto simp: Note_find_in_def)
  qed
  from di have "distinct (noteDocs d)" by (simp add: distinct_map)
  then show "distinct (Note_find_in d (map n_id ns))"
    by (simp add: Note_find_in_def)
qed

section \<open>The faculty routes\<close>

lemmas faculty_defs = list_faculty_def create_faculty_def update_faculty_def arrive_def send_def
  redact_db_def redact_env_def

lemma delete_key_absent: "key \<notin> fst ` set (delete_key key d)"
  by (auto simp: delete_key_def)

lemma public_fields: "delete_key ''password'' (toObject (f\<lparr>password := p\<rparr>)) = delete_key ''password'' (toObject f)"
  by (simp add: delete_key_def toObject_def)

lemma insort_key_map:
  assumes "\<And>y. k (r y) = k y"
  shows "insort_key k (r x) (map r xs) = map r (insort_key k x xs)"
  using assms by (induction xs) simp_all

lemma sort_key_map:
  assumes "\<And>y. k (r y) = k y"
  shows "sort_key k (map r xs) = map r (sort_key k xs)"
  using assms by (induction xs) (simp_all add: insort_key_map)

lemma list_faculty_redacted:
  "response (list_faculty e w) =
     response (list_faculty (redact_env e) (w\<lparr>store := redact_db (store w)\<rparr>))"
proof -
  have "sort_key (\<lambda>f. - int (f_createdAt f)) (map (\<lambda>f. f\<lparr>password := []\<rparr>) (facultyDocs (store w))) =
      map (\<lambda>f. f\<lparr>password := []\<rparr>) (sort_key (\<lambda>f. - int (f_createdAt f)) (facultyDocs (store w)))"
    by (rule sort_key_map) simp
  then show ?thesis
    by (simp add: faculty_defs Let_def comp_def public_fields)
qed

lemma create_faculty_redacted:
  "response (create_faculty e w b) =
     response (create_faculty (redact_env e) (w\<lparr>store := redact_db (store w)\<rparr>)
        (b\<lparr>fb_password := (if fb_password b = [] then [] else ''*'')\<rparr>))"
proof -
  have pf: "delete_key ''password'' (toObject (f\<lparr>password := p\<rparr>)) =
      delete_key ''password'' (toObject (f\<lparr>password := q\<rparr>))" for f p q
    by (simp add: public_fields)
  show ?thesis
    by (simp add: faculty_defs Let_def delete_key_def toObject_def)
qed

lemma apply_body_public:
  "delete_key ''password'' (toObject (apply_body e b f)) =
   delete_key ''password'' (toObject (apply_body e' (b\<lparr>fb_password := p\<rparr>) (f\<lparr>password := q\<rparr>)))"
  by (simp add: apply_body_def Let_def delete_key_def toObject_def)

lemma find_redacted:
  "find (\<lambda>f. f_id f = i) (map (\<lambda>f. f\<lparr>password := []\<rparr>) fs) =
     map_option (\<lambda>f. f\<lparr>password := []\<rparr>) (find (\<lambda>f. f_id f = i) fs)"
  by (induction fs) simp_all

lemma response_send: "response (send r s) = r"
  by (simp add: send_def)

lemma update_faculty_response:
  "response (update_faculty e w rid b) =
     (case castId e rid of
        None \<Rightarrow> Response 400 (Message ''Invalid ID'')
      | Some i \<Rightarrow>
          if db_fails e (FindById Faculty i) then Response 500 (Message ''Server error'')
          else (case find (\<lambda>f. f_id f = i) (facultyDocs (store w)) of
                  None \<Rightarrow> Response 404 (Message ''Faculty not found'')
                | Some faculty \<Rightarrow>
                    if fb_email b \<noteq> [] \<and> fb_email b \<noteq> email faculty
                       \<and> db_fails e (FindOneByEmail (fb_email b))
                    then Response 500 (Message ''Server error'')
                    else if fb_email b \<noteq> [] \<and> fb_email b \<noteq> email faculty
                       \<and> (\<exists>f \<in> set (facultyDocs (store w)). email f = fb_email b \<and> f_id f \<noteq> i)
                    then Response 400 (Message ''Email already exists'')
                    else if fb_employeeId b \<noteq> [] \<and> fb_employeeId b \<noteq> employeeId faculty
                       \<and> db_fails e (FindOneByEmployeeId (fb_employeeId b))
                    then Response 500 (Message ''Server error'')
                    else if fb_employeeId b \<noteq> [] \<and> fb_employeeId b \<noteq> employeeId faculty
                       \<and> (\<exists>f \<in> set (facultyDocs (store w)).
                             employeeId f = fb_employeeId b \<and> f_id f \<noteq> i)
                    then Response 400 (Message ''Employee ID already exists'')
                    else if db_fails e (Save Faculty i)
                    then Response 500 (Message ''Server error'')
                    else Response 200 (Document (delete_key ''password''
                           (toObject (apply_body e b faculty))))))"
  unfolding update_faculty_def arrive_def Let_def
  by (simp only: option.case_distrib [of response] if_distrib [of response] response_send
        run.simps)

lemma update_faculty_redacted:
  "response (update_faculty e w rid b) =
     response (update_faculty (redact_env e) (w\<lparr>store := redact_db (store w)\<rparr>) rid
        (b\<lparr>fb_password := []\<rparr>))"
proof (cases "castId e rid")
  case None
  then show ?thesis by (simp add: update_faculty_response redact_env_def)
next
  case (Some i)
  show ?thesis
  proof (cases "find (\<lambda>f. f_id f = i) (facultyDocs (store w))")
    case None
    with Some show ?thesis
      by (simp add: update_faculty_response redact_env_def redact_db_def find_redacted)
  next
    case found: (Some f)
    have pub: "delete_key ''password''
        (toObject (apply_body (e\<lparr>bcrypt_hash := \<lambda>p. []\<rparr>) (b\<lparr>fb_password := []\<rparr>)
           (f\<lparr>password := []\<rparr>))) = delete_key ''password'' (toObject (apply_body e b f))"
      by (rule apply_body_public [symmetric])
    from Some found show ?thesis
      by (simp add: update_faculty_response redact_env_def redact_db_def find_redacted pub
            split del: if_split cong: if_cong)
  qed
qed

lemma create_faculty_response:
  "response (create_faculty e w b) =
     (if fb_name b = [] \<or> fb_email b = [] \<or> fb_password b = [] \<or> fb_employeeId b = []
         \<or> fb_designation b = []
      then Response 400 (Message ''Required fields missing'')
      else if db_fails e (FindOneByEmail (fb_email b))
      then Response 500 (Message ''Server error'')
      else if \<exists>f \<in> set (facultyDocs (store w)). email f = fb_email b
      then Response 400 (Message ''Email already exists'')
      else if db_fails e (FindOneByEmployeeId (fb_employeeId b))
      then Response 500 (Message ''Server error'')
      else if \<exists>f \<in> set (facultyDocs (store w)). employeeId f = fb_employeeId b
      then Response 400 (Message ''Employee ID already exists'')
      else if db_fails e (Save Faculty (newObjectId e))
      then Response 500 (Message ''Server error'')
      else Response 201 (Document (delete_key ''password'' (toObject
             \<lparr>f_id = newObjectId e, f_name = fb_name b, email = fb_email b,
              password = bcrypt_hash e (fb_password b),
              employeeId = fb_employeeId b, designation = fb_designation b,
              uploadedNotes = [], f_createdAt = now e\<rparr>))))"
  unfolding create_faculty_def arrive_def Let_def
  by (simp only: if_distrib [of response] response_send run.simps faculty_doc.simps)

lemma list_faculty_response:
  "response (list_faculty e w) =
     (if db_fails e (FindAll Faculty) then Response 500 (Message ''Server error'')
      else Response 200 (Documents
             (map (\<lambda>f. delete_key ''password'' (toObject f))
                (sort_key (\<lambda>f. - int (f_createdAt f)) (facultyDocs (store w))))))"
  unfolding list_faculty_def arrive_def Let_def
  by (simp only: if_distrib [of response] response_send run.simps)

lemma admin_faculty_documents:
  assumes "d \<in> set (documents_of (response (admin_faculty e w q)))"
  shows "''password'' \<notin> fst ` set d"
proof (cases q)
  case GET_faculty
  with assms show ?thesis
    by (auto simp: list_faculty_response delete_key_def split: if_splits)
next
  case (POST_faculty b)
  with assms have "d \<in> set (documents_of (response (create_faculty e w b)))" by simp
  then show ?thesis
    unfolding create_faculty_response
    by (simp only: if_distrib [of documents_of] if_distrib [of set] documents_of.simps
          split: if_splits)
       (simp_all add: delete_key_absent)
next
  case (PUT_faculty rid b)
  with assms have "d \<in> set (documents_of (response (update_faculty e w rid b)))" by simp
  then show ?thesis
    unfolding update_faculty_response
    by (simp only: if_distrib [of documents_of] if_distrib [of set] documents_of.simps
          option.case_distrib [of documents_of] option.case_distrib [of set]
          split: if_splits option.splits)
       (simp_all add: delete_key_absent)
qed

section \<open>The ledger\<close>

text \<open>
  The notes router's own \<open>DELETE /:id\<close> keeps the ledger: after it has answered 200,
  the uploader of the deleted note no longer lists it.
\<close>

lemma update_first_set:
  assumes "distinct (map k xs)" and "\<And>x. k (g x) = k x"
  shows "set (update_first (\<lambda>x. k x = i) g xs) =
           {x \<in> set xs. k x \<noteq> i} \<union> g ` {x \<in> set xs. k x = i}"
  using assms(1)
proof (induction xs)
  case Nil
  show ?case by simp
next
  case (Cons a xs)
  show ?case
  proof (cases "k a = i")
    case True
    with Cons.prems have "\<forall>x \<in> set xs. k x \<noteq> i" by (auto simp: image_iff)
    with True show ?thesis by auto
  next
    case False
    with Cons show ?thesis by auto
  qed
qed

lemma delete_note_pulls:
  assumes ok: "status (response (delete_note e w noteId)) = 200"
    and i: "castId e noteId = Some i"
    and n: "find (\<lambda>n. n_id n = i) (noteDocs (store w)) = Some doc"
    and u: "distinct (map f_id (facultyDocs (store w)))"
    and f: "f \<in> set (facultyDocs (store (after (delete_note e w noteId))))"
      "f_id f = uploadedBy doc"
  shows "i \<notin> set (uploadedNotes f)"
proof -
  from n have ni: "n_id doc = i"
    by (auto simp: find_Some_iff)
  let ?pulled = "update_first (\<lambda>f. f_id f = uploadedBy doc)
         (\<lambda>f. f\<lparr>uploadedNotes := removeAll (n_id doc) (uploadedNotes f)\<rparr>)
         (facultyDocs (store w))"
  from ok i n have "facultyDocs (store (after (delete_note e w noteId))) = ?pulled"
    by (auto simp: delete_note_def arrive_def send_def Let_def deleteS3Object_def
          Faculty_pull_def Note_deleteOne_def andThen_def
          split: if_splits option.splits outcome.splits)
  with f(1) have "f \<in> set ?pulled" by simp
  with update_first_set [of f_id "facultyDocs (store w)"
      "\<lambda>f. f\<lparr>uploadedNotes := removeAll (n_id doc) (uploadedNotes f)\<rparr>" "uploadedBy doc", OF u]
  have "f_id f \<noteq> uploadedBy doc \<or> n_id doc \<notin> set (uploadedNotes f)"
    by auto
  with f(2) ni show ?thesis by simp
qed

section \<open>The claims\<close>

text \<open>
  C1, as the spec states it, fails: every cascade route sends \<open>deleteObject\<close> for a
  note inside the \<open>try\<close> block, before \<open>Note.deleteMany\<close> and before the commit.
  Deleting subject 20 of the campus deletes the object of note 30 first and commits
  last. Deleting regulation 1 while \<open>Subject.deleteMany\<close> is rejected for branch 11
  never reaches the commit: the transaction is aborted and the metadata is intact, but
  the objects of both notes are already gone.
\<close>

theorem blob_deleted_before_commit:
  "events (deleteHierarchy calm campus SubjectRoot ''20'') =
     [DeleteObject ''uploads/1_A.pdf'', Removed Note 30, Removed Subject 20, Committed] \<and>
   response (deleteHierarchy subjects_fail campus RegulationRoot ''1'') =
     Response 500 (Message ''Error during cascade delete'') \<and>
   events (deleteHierarchy subjects_fail campus RegulationRoot ''1'') =
     [DeleteObject ''uploads/1_A.pdf'', DeleteObject ''uploads/2_B.pdf'',
      Removed Note 30, Removed Note 31, Removed Subject 20, Aborted] \<and>
   blobs campus ''uploads/1_A.pdf'' = Some [37, 80, 68, 70] \<and>
   blobs campus ''uploads/2_B.pdf'' = Some [37, 80] \<and>
   blobs (after (deleteHierarchy subjects_fail campus RegulationRoot ''1'')) ''uploads/1_A.pdf'' = None \<and>
   blobs (after (deleteHierarchy subjects_fail campus RegulationRoot ''1'')) ''uploads/2_B.pdf'' = None \<and>
   store (after (deleteHierarchy subjects_fail campus RegulationRoot ''1'')) = store campus"
  by (simp add: route_defs example_defs subjects_fail_def)

text \<open>
  C1, amended. In every cascade delete the blob deletions are issued inside the metadata
  transaction, before its commit: when the call succeeds the commit is the last thing it
  does, and by then a blob deletion has been issued for the \<open>fileKey\<close> of every Note the
  call removed from the store; a call that does not succeed never commits; and a call
  answered Invalid ID (400) or NotFound (404) issues no blob deletion at all.
\<close>

theorem blob_deletions_precede_commit:
  "(status (response (deleteHierarchy e w k rid)) = 200 \<longrightarrow>
      (\<exists>done. events (deleteHierarchy e w k rid) = done @ [Committed] \<and>
         Committed \<notin> set done \<and>
         (\<forall>n \<in> set (noteDocs (store w)).
            n \<notin> set (noteDocs (store (after (deleteHierarchy e w k rid)))) \<longrightarrow>
            DeleteObject (fileKey n) \<in> set done))) \<and>
   (status (response (deleteHierarchy e w k rid)) \<noteq> 200 \<longrightarrow>
      Committed \<notin> set (events (deleteHierarchy e w k rid))) \<and>
   (status (response (deleteHierarchy e w k rid)) = 400 \<or>
    status (response (deleteHierarchy e w k rid)) = 404 \<longrightarrow>
      events (deleteHierarchy e w k rid) = [])"
proof (cases "status (response (deleteHierarchy e w k rid)) = 200")
  case True
  then obtain i s where c: "cascade e k i (startTransaction w) = Done s"
    and r: "deleteHierarchy e w k rid =
              send (Response 200 (Message (ok_message k)))
                (s\<lparr>committed := work s, issued := issued s @ [Committed], txn := CommitCalled\<rparr>)"
    by (rule deleteHierarchy_200)
  from step_cascade [of "startTransaction w" e k i] c obtain evs where
    "issued s = evs" "Committed \<notin> set evs"
    "\<forall>n \<in> set (noteDocs (store w)). n \<notin> set (noteDocs (work s)) \<longrightarrow>
       DeleteObject (fileKey n) \<in> set evs"
    by (auto simp: step_def startTransaction_def)
  then show ?thesis
    unfolding r by (simp add: send_def)
next
  case False
  with deleteHierarchy_not_200 [OF False] show ?thesis by blast
qed

theorem blob_deletions_precede_commit_witness:
  "status (response (deleteHierarchy calm campus BranchRoot ''10'')) = 200 \<and>
   (\<exists>done. events (deleteHierarchy calm campus BranchRoot ''10'') = done @ [Committed] \<and>
      Committed \<notin> set done \<and> DeleteObject ''uploads/1_A.pdf'' \<in> set done) \<and>
   status (response (deleteHierarchy subjects_fail campus RegulationRoot ''1'')) = 500 \<and>
   Committed \<notin> set (events (deleteHierarchy subjects_fail campus RegulationRoot ''1'')) \<and>
   status (response (deleteHierarchy calm campus BranchRoot ''12'')) = 400 \<and>
   events (deleteHierarchy calm campus BranchRoot ''12'') = []"
proof -
  have a: "status (response (deleteHierarchy calm campus BranchRoot ''10'')) = 200"
    by (simp add: route_defs example_defs)
  have n: "\<lparr>n_id = 30, title = ''A'', n_regulation = 1, n_subject = 20, n_branch = 10,
             n_semester = ''1'', fileKey = ''uploads/1_A.pdf'', uploadedBy = 40, n_createdAt = 1\<rparr>
           \<in> set (noteDocs (store campus))"
    by (simp add: example_defs)
  have g: "\<lparr>n_id = 30, title = ''A'', n_regulation = 1, n_subject = 20, n_branch = 10,
             n_semester = ''1'', fileKey = ''uploads/1_A.pdf'', uploadedBy = 40, n_createdAt = 1\<rparr>
           \<notin> set (noteDocs (store (after (deleteHierarchy calm campus BranchRoot ''10''))))"
    by (simp add: route_defs example_defs)
  have b: "status (response (deleteHierarchy subjects_fail campus RegulationRoot ''1'')) = 500"
    by (simp add: route_defs example_defs subjects_fail_def)
  have c: "status (response (deleteHierarchy calm campus BranchRoot ''12'')) = 400"
    by (simp add: route_defs example_defs)
  from blob_deletions_precede_commit [of calm campus BranchRoot "''10''"] a n g
  have one: "\<exists>done. events (deleteHierarchy calm campus BranchRoot ''10'') = done @ [Committed] \<and>
      Committed \<notin> set done \<and> DeleteObject ''uploads/1_A.pdf'' \<in> set done"
    by fastforce
  from blob_deletions_precede_commit [of subjects_fail campus RegulationRoot "''1''"] b
  have two: "Committed \<notin> set (events (deleteHierarchy subjects_fail campus RegulationRoot ''1''))"
    by simp
  from blob_deletions_precede_commit [of calm campus BranchRoot "''12''"] c
  have three: "events (deleteHierarchy calm campus BranchRoot ''12'') = []"
    by simp
  from a b c one two three show ?thesis by blast
qed


text \<open>
  C3. For a regulation whose store satisfies the consistency precondition, after a
  successful \<open>deleteHierarchy(Regulation, R)\<close> no Branch, Subject or Note that was a
  descendant of \<open>R\<close> is left in the metadata store, the store holds nothing that
  references \<open>R\<close> directly or through a branch or subject, and a blob deletion was
  issued for the \<open>fileKey\<close> of every descendant Note.
\<close>

theorem regulation_cascade_complete:
  assumes "consistent (store w)" and "castId e rid = Some i"
    and "status (response (deleteHierarchy e w RegulationRoot rid)) = 200"
  shows "(\<forall>b \<in> set (branchDocs (store (after (deleteHierarchy e w RegulationRoot rid)))).
            b \<notin> set (desc_branches (store w) RegulationRoot i)) \<and>
         (\<forall>x \<in> set (subjectDocs (store (after (deleteHierarchy e w RegulationRoot rid)))).
            x \<notin> set (desc_subjects (store w) RegulationRoot i)) \<and>
         (\<forall>n \<in> set (noteDocs (store (after (deleteHierarchy e w RegulationRoot rid)))).
            n \<notin> set (desc_notes (store w) RegulationRoot i)) \<and>
         desc_branches (store (after (deleteHierarchy e w RegulationRoot rid))) RegulationRoot i = [] \<and>
         desc_subjects (store (after (deleteHierarchy e w RegulationRoot rid))) RegulationRoot i = [] \<and>
         desc_notes (store (after (deleteHierarchy e w RegulationRoot rid))) RegulationRoot i = [] \<and>
         (\<forall>n \<in> set (desc_notes (store w) RegulationRoot i).
            DeleteObject (fileKey n) \<in> set (events (deleteHierarchy e w RegulationRoot rid)))"
proof -
  let ?r = "deleteHierarchy e w RegulationRoot rid"
  from assms(3) obtain j s where j: "castId e rid = Some j"
    and c: "cascade e RegulationRoot j (startTransaction w) = Done s"
    and r: "?r = send (Response 200 (Message (ok_message RegulationRoot)))
           (s\<lparr>committed := work s, issued := issued s @ [Committed], txn := CommitCalled\<rparr>)"
    by (rule deleteHierarchy_200)
  from j assms(2) have ji: "j = i" by simp
  from c ji have c': "regulation_cascade e i (startTransaction w) = Done s" by simp
  have st: "store (after ?r) = work s" and ev: "events ?r = issued s @ [Committed]"
    unfolding r by (simp_all add: send_def)
  have w0: "work (startTransaction w) = store w" by (simp add: startTransaction_def)
  note d = regulation_cascade_Done [OF c', unfolded w0]
  have b: "\<forall>b \<in> set (branchDocs (work s)). b \<notin> set (desc_branches (store w) RegulationRoot i)"
    unfolding d by simp
  have x: "\<forall>x \<in> set (subjectDocs (work s)). x \<notin> set (desc_subjects (store w) RegulationRoot i)"
    unfolding d by simp
  have n: "\<forall>n \<in> set (noteDocs (work s)). n \<notin> set (desc_notes (store w) RegulationRoot i)"
    unfolding d by simp
  have eb: "desc_branches (work s) RegulationRoot i = []"
    using b by (auto simp: filter_empty_conv d(3))
  have ex: "desc_subjects (work s) RegulationRoot i = []"
    unfolding desc_subjects.simps eb by simp
  have en: "desc_notes (work s) RegulationRoot i = []"
    unfolding desc_notes.simps eb ex using n by (auto simp: filter_empty_conv d(1))
  from step_cascade [of "startTransaction w" e RegulationRoot i] c ji
  have "\<forall>n \<in> set (noteDocs (store w)). n \<notin> set (noteDocs (work s)) \<longrightarrow>
          DeleteObject (fileKey n) \<in> set (issued s)"
    by (auto simp: step_def startTransaction_def)
  with n have bl: "\<forall>n \<in> set (desc_notes (store w) RegulationRoot i).
      DeleteObject (fileKey n) \<in> set (events ?r)"
    unfolding ev by auto
  from b x n eb ex en bl show ?thesis unfolding st by blast
qed

theorem regulation_cascade_complete_witness:
  "consistent (store campus) \<and>
   status (response (deleteHierarchy calm campus RegulationRoot ''1'')) = 200 \<and>
   note_A \<in> set (desc_notes (store campus) RegulationRoot 1) \<and>
   desc_branches (store (after (deleteHierarchy calm campus RegulationRoot ''1''))) RegulationRoot 1 = [] \<and>
   desc_subjects (store (after (deleteHierarchy calm campus RegulationRoot ''1''))) RegulationRoot 1 = [] \<and>
   desc_notes (store (after (deleteHierarchy calm campus RegulationRoot ''1''))) RegulationRoot 1 = [] \<and>
   DeleteObject ''uploads/1_A.pdf'' \<in> set (events (deleteHierarchy calm campus RegulationRoot ''1''))"
proof -
  have c: "consistent (store campus)"
    by (simp add: consistent_def example_defs)
  have i: "castId calm ''1'' = Some 1"
    by (simp add: example_defs)
  have s: "status (response (deleteHierarchy calm campus RegulationRoot ''1'')) = 200"
    by (simp add: route_defs example_defs)
  have m: "note_A \<in> set (desc_notes (store campus) RegulationRoot 1)"
    by (simp add: example_defs note_A_def)
  have k: "fileKey note_A = ''uploads/1_A.pdf''"
    by (simp add: note_A_def)
  note T = regulation_cascade_complete [OF c i s]
  note T3 = T [THEN conjunct2, THEN conjunct2, THEN conjunct2]
  note e = T3 [THEN conjunct1] T3 [THEN conjunct2, THEN conjunct1]
    T3 [THEN conjunct2, THEN conjunct2, THEN conjunct1]
  note T3 [THEN conjunct2, THEN conjunct2, THEN conjunct2]
  from this m have "DeleteObject (fileKey note_A) \<in> set (events (deleteHierarchy calm campus RegulationRoot ''1''))"
    by (rule bspec)
  with c s m e show ?thesis unfolding k by (intro conjI)
qed

text \<open>
  C4, as the spec states it, fails: the regulation route deletes branch by branch, the
  notes of a branch and then its subjects, so on a store that breaks the consistency
  invariant a subject of one branch is deleted while a note of the next branch is still
  there. With the stray note 32 (regulation 2, branch 11), deleting regulation 1 removes
  subject 20 before note 32, a descendant of regulation 1 through its branch.
\<close>

theorem subject_removed_before_note:
  "removed (events (deleteHierarchy calm stray RegulationRoot ''1'')) =
     [(Note, 30), (Note, 31), (Subject, 20), (Note, 32), (Subject, 21), (Branch, 10),
      (Branch, 11), (Regulation, 1)] \<and>
   map n_id (desc_notes (store stray) RegulationRoot 1) = [30, 31, 32] \<and>
   \<not> sorted (map (rank \<circ> fst) (removed (events (deleteHierarchy calm stray RegulationRoot ''1''))))"
  by (simp add: route_defs example_defs stray_def stray_db_def)

text \<open>
  C4, amended. On a metadata store that satisfies the consistency precondition, the
  metadata deletions of every cascade delete happen in this strict order: all descendant
  Notes first, then all descendant Subjects, then all descendant Branches, then the root
  record, which is the last document a successful call removes. In particular, when a
  Subject (or anything above it) is removed every descendant Note of the cascade has
  been removed before, when a Branch or the Regulation is removed every descendant
  Subject has, and when the Regulation is removed every descendant Branch has.
\<close>

theorem cascade_order:
  assumes "consistent (store w)" and "castId e rid = Some i"
  shows "sorted (map (rank \<circ> fst) (removed (events (deleteHierarchy e w k rid)))) \<and>
    (status (response (deleteHierarchy e w k rid)) = 200 \<longrightarrow>
       removed (events (deleteHierarchy e w k rid)) \<noteq> [] \<and>
       last (removed (events (deleteHierarchy e w k rid))) = (root_model k, i)) \<and>
    (\<forall>pre m j post. events (deleteHierarchy e w k rid) = pre @ Removed m j # post \<longrightarrow>
       (m \<noteq> Note \<longrightarrow>
          (\<forall>n \<in> set (desc_notes (store w) k i). Removed Note (n_id n) \<in> set pre)) \<and>
       (m = Branch \<or> m = Regulation \<longrightarrow>
          (\<forall>x \<in> set (desc_subjects (store w) k i). Removed Subject (s_id x) \<in> set pre)) \<and>
       (m = Regulation \<longrightarrow>
          (\<forall>b \<in> set (desc_branches (store w) k i). Removed Branch (b_id b) \<in> set pre)))"
proof -
  let ?r = "deleteHierarchy e w k rid"
  note L = deleteHierarchy_layers [OF assms, of k]
  note srt = layers_sorted [OF L]
  have last: "removed (events ?r) \<noteq> [] \<and> last (removed (events ?r)) = (root_model k, i)"
    if "status (response ?r) = 200"
  proof -
    from that obtain j s where j: "castId e rid = Some j"
      and p: "root_present (store w) k j"
      and c: "cascade e k j (startTransaction w) = Done s"
      and r: "?r = send (Response 200 (Message (ok_message k)))
                (s\<lparr>committed := work s, issued := issued s @ [Committed], txn := CommitCalled\<rparr>)"
      by (rule deleteHierarchy_200)
    from j assms(2) have "j = i" by simp
    with cascade_root_last [OF c] p show ?thesis
      unfolding r by (simp add: send_def startTransaction_def)
  qed
  have order: "(m \<noteq> Note \<longrightarrow>
          (\<forall>n \<in> set (desc_notes (store w) k i). Removed Note (n_id n) \<in> set pre)) \<and>
       (m = Branch \<or> m = Regulation \<longrightarrow>
          (\<forall>x \<in> set (desc_subjects (store w) k i). Removed Subject (s_id x) \<in> set pre)) \<and>
       (m = Regulation \<longrightarrow>
          (\<forall>b \<in> set (desc_branches (store w) k i). Removed Branch (b_id b) \<in> set pre))"
    if ev: "events ?r = pre @ Removed m j # post" for pre m j post
  proof -
    from ev have here: "(m, j) \<in> set (removed (events ?r))"
      by (simp add: removed_mem)
    have "Removed Note (n_id n) \<in> set pre"
      if "m \<noteq> Note" "n \<in> set (desc_notes (store w) k i)" for n
    proof -
      from layers_notes_covered [OF L here that(1), of "n_id n"] that(2)
      have "Removed Note (n_id n) \<in> set (events ?r)" by (simp add: removed_mem)
      moreover from that(1) have "rank Note < rank m" by (cases m) simp_all
      ultimately show ?thesis by (rule removed_before [OF srt ev])
    qed
    moreover have "Removed Subject (s_id x) \<in> set pre"
      if "m = Branch \<or> m = Regulation" "x \<in> set (desc_subjects (store w) k i)" for x
    proof -
      from layers_subjects_covered [OF L here that(1), of "s_id x"] that(2)
      have "Removed Subject (s_id x) \<in> set (events ?r)" by (simp add: removed_mem)
      moreover from that(1) have "rank Subject < rank m" by auto
      ultimately show ?thesis by (rule removed_before [OF srt ev])
    qed
    moreover have "Removed Branch (b_id b) \<in> set pre"
      if "m = Regulation" "b \<in> set (desc_branches (store w) k i)" for b
    proof -
      from layers_branches_covered [OF L, of j "b_id b"] here that
      have "Removed Branch (b_id b) \<in> set (events ?r)" by (simp add: removed_mem)
      moreover from that(1) have "rank Branch < rank m" by simp
      ultimately show ?thesis by (rule removed_before [OF srt ev])
    qed
    ultimately show ?thesis by blast
  qed
  from srt last order show ?thesis by blast
qed

theorem cascade_order_witness:
  "consistent (store campus) \<and> castId calm ''1'' = Some 1 \<and>
   status (response (deleteHierarchy calm campus RegulationRoot ''1'')) = 200 \<and>
   sorted (map (rank \<circ> fst) (removed (events (deleteHierarchy calm campus RegulationRoot ''1'')))) \<and>
   last (removed (events (deleteHierarchy calm campus RegulationRoot ''1''))) = (Regulation, 1) \<and>
   events (deleteHierarchy calm campus RegulationRoot ''1'') =
     [DeleteObject ''uploads/1_A.pdf'', DeleteObject ''uploads/2_B.pdf'', Removed Note 30,
      Removed Note 31] @ Removed Subject 20 #
     [Removed Subject 21, Removed Branch 10, Removed Branch 11, Removed Regulation 1, Committed] \<and>
   note_B \<in> set (desc_notes (store campus) RegulationRoot 1) \<and>
   Removed Note (n_id note_B) \<in> set [DeleteObject ''uploads/1_A.pdf'',
      DeleteObject ''uploads/2_B.pdf'', Removed Note 30, Removed Note 31] \<and>
   events (deleteHierarchy calm campus RegulationRoot ''1'') =
     [DeleteObject ''uploads/1_A.pdf'', DeleteObject ''uploads/2_B.pdf'', Removed Note 30,
      Removed Note 31, Removed Subject 20, Removed Subject 21, Removed Branch 10,
      Removed Branch 11] @ Removed Regulation 1 # [Committed] \<and>
   map s_id (desc_subjects (store campus) RegulationRoot 1) = [20, 21] \<and>
   map b_id (desc_branches (store campus) RegulationRoot 1) = [10, 11] \<and>
   Removed Subject 21 \<in> set [DeleteObject ''uploads/1_A.pdf'', DeleteObject ''uploads/2_B.pdf'',
      Removed Note 30, Removed Note 31, Removed Subject 20, Removed Subject 21,
      Removed Branch 10, Removed Branch 11] \<and>
   Removed Branch 11 \<in> set [DeleteObject ''uploads/1_A.pdf'', DeleteObject ''uploads/2_B.pdf'',
      Removed Note 30, Removed Note 31, Removed Subject 20, Removed Subject 21,
      Removed Branch 10, Removed Branch 11]"
proof -
  let ?r = "deleteHierarchy calm campus RegulationRoot ''1''"
  let ?pre = "[DeleteObject ''uploads/1_A.pdf'', DeleteObject ''uploads/2_B.pdf'', Removed Note 30,
      Removed Note 31]"
  let ?all = "[DeleteObject ''uploads/1_A.pdf'', DeleteObject ''uploads/2_B.pdf'', Removed Note 30,
      Removed Note 31, Removed Subject 20, Removed Subject 21, Removed Branch 10,
      Removed Branch 11]"
  have c: "consistent (store campus)"
    by (simp add: consistent_def example_defs)
  have i: "castId calm ''1'' = Some 1"
    by (simp add: example_defs)
  have s: "status (response ?r) = 200"
    by (simp add: route_defs example_defs)
  have ev: "events ?r = ?pre @ Removed Subject 20 #
     [Removed Subject 21, Removed Branch 10, Removed Branch 11, Removed Regulation 1, Committed]"
    by (simp add: route_defs example_defs)
  have ev': "events ?r = ?all @ Removed Regulation 1 # [Committed]"
    by (simp add: route_defs example_defs)
  have m: "note_B \<in> set (desc_notes (store campus) RegulationRoot 1)"
    by (simp add: example_defs note_B_def)
  have ds: "map s_id (desc_subjects (store campus) RegulationRoot 1) = [20, 21]"
    and db: "map b_id (desc_branches (store campus) RegulationRoot 1) = [10, 11]"
    by (simp_all add: example_defs)
  have "21 \<in> set (map s_id (desc_subjects (store campus) RegulationRoot 1))"
    unfolding ds by simp
  then obtain x where x: "x \<in> set (desc_subjects (store campus) RegulationRoot 1)" "s_id x = 21"
    by (auto simp: image_iff)
  have "11 \<in> set (map b_id (desc_branches (store campus) RegulationRoot 1))"
    unfolding db by simp
  then obtain b where b: "b \<in> set (desc_branches (store campus) RegulationRoot 1)" "b_id b = 11"
    by (auto simp: image_iff)
  note T = cascade_order [OF c i, of RegulationRoot]
  from T have srt: "sorted (map (rank \<circ> fst) (removed (events ?r)))"
    by (rule conjunct1)
  from T [THEN conjunct2, THEN conjunct1] s
  have lst: "last (removed (events ?r)) = (Regulation, 1)"
    by simp
  from T [THEN conjunct2, THEN conjunct2, rule_format, OF ev]
  have "\<forall>n \<in> set (desc_notes (store campus) RegulationRoot 1). Removed Note (n_id n) \<in> set ?pre"
    by simp
  from this m have one: "Removed Note (n_id note_B) \<in> set ?pre"
    by (rule bspec)
  note R = T [THEN conjunct2, THEN conjunct2, THEN spec, THEN spec, THEN spec, THEN spec,
      THEN mp, OF ev', THEN conjunct2]
  have "Regulation = Branch \<or> Regulation = Regulation" by simp
  with R [THEN conjunct1]
  have "\<forall>x \<in> set (desc_subjects (store campus) RegulationRoot 1).
           Removed Subject (s_id x) \<in> set ?all"
    by (rule mp)
  from this x(1) have "Removed Subject (s_id x) \<in> set ?all"
    by (rule bspec)
  hence two: "Removed Subject 21 \<in> set ?all"
    unfolding x(2) .
  from R [THEN conjunct2, THEN mp, OF refl]
  have "\<forall>b \<in> set (desc_branches (store campus) RegulationRoot 1).
           Removed Branch (b_id b) \<in> set ?all" .
  from this b(1) have "Removed Branch (b_id b) \<in> set ?all"
    by (rule bspec)
  hence three: "Removed Branch 11 \<in> set ?all"
    unfolding b(2) .
  from c i s srt lst ev m one ev' ds db two three show ?thesis by (intro conjI)
qed

text \<open>
  C5. Only \<open>DELETE /:id\<close> of the notes router pulls the Note's identifier from the
  owning Faculty's \<open>uploadedNotes\<close>. \<open>DELETE /notes/:id\<close> of the admin router and the
  cascade routes delete the Note and leave the list as it was: on the campus, each of
  them removes note 30 while faculty 40 still lists it.
\<close>

theorem admin_delete_keeps_ledger_entry:
  "map uploadedNotes (facultyDocs (store campus)) = [[30, 31]] \<and>
   response (delete_note calm campus ''30'') = Response 200 (Message ''Note deleted successfully'') \<and>
   map n_id (noteDocs (store (after (delete_note calm campus ''30'')))) = [31] \<and>
   map uploadedNotes (facultyDocs (store (after (delete_note calm campus ''30'')))) = [[31]] \<and>
   response (admin_delete_note calm campus ''30'') = Response 200 (Message ''Note deleted'') \<and>
   map n_id (noteDocs (store (after (admin_delete_note calm campus ''30'')))) = [31] \<and>
   map uploadedNotes (facultyDocs (store (after (admin_delete_note calm campus ''30'')))) = [[30, 31]] \<and>
   status (response (deleteHierarchy calm campus SubjectRoot ''20'')) = 200 \<and>
   map n_id (noteDocs (store (after (deleteHierarchy calm campus SubjectRoot ''20'')))) = [31] \<and>
   map uploadedNotes (facultyDocs (store (after (deleteHierarchy calm campus SubjectRoot ''20'')))) =
     [[30, 31]]"
  by (simp add: note_defs route_defs example_defs)




text \<open>
  C7. The archive build on an empty selection answers EmptySelection (400); on a
  non-empty selection of which no identifier resolves to a Note it answers NotFound
  (404); and on a mixed selection, with an identifier that resolves and one that does
  not, it answers neither: the identifiers that do not resolve are skipped without a
  word, and the archive returned (when no blob fetch fails) has entries only for
  existing selected Notes, one for each of them that has a \<open>fileKey\<close>. The lookup is
  taken to answer.
\<close>

theorem archive_selection:
  "download_zip e w [] = Response 400 (Message ''No notes selected'') \<and>
   (noteIds \<noteq> [] \<and> \<not> db_fails e (FindNotesIn noteIds) \<and>
    (\<forall>i \<in> set noteIds. i \<notin> n_id ` set (noteDocs (store w))) \<longrightarrow>
      download_zip e w noteIds = Response 404 (Message ''Notes not found'')) \<and>
   (\<not> db_fails e (FindNotesIn noteIds) \<and>
    (\<exists>i \<in> set noteIds. i \<in> n_id ` set (noteDocs (store w))) \<and>
    (\<exists>i \<in> set noteIds. i \<notin> n_id ` set (noteDocs (store w))) \<longrightarrow>
      status (download_zip e w noteIds) \<noteq> 400 \<and> status (download_zip e w noteIds) \<noteq> 404 \<and>
      ((\<forall>n \<in> set (Note_find_in (store w) noteIds).
          fileKey n \<noteq> [] \<longrightarrow> \<not> fetch_fails e (fileKey n)) \<longrightarrow>
       (\<exists>z. download_zip e w noteIds = Response 200 (ZipBuffer z) \<and>
          (\<forall>entry \<in> set z. \<exists>n \<in> set (noteDocs (store w)).
             n_id n \<in> set noteIds \<and> fst entry = title n @ ''.pdf'' \<and>
             fetchBuffer e (blobs w) (fileKey n) = Some (snd entry)) \<and>
          (\<forall>n \<in> set (noteDocs (store w)). n_id n \<in> set noteIds \<and> fileKey n \<noteq> [] \<longrightarrow>
             title n @ ''.pdf'' \<in> fst ` set z))))"
proof (intro conjI impI)
  show "download_zip e w [] = Response 400 (Message ''No notes selected'')"
    by (simp add: download_zip_def)
next
  assume "noteIds \<noteq> [] \<and> \<not> db_fails e (FindNotesIn noteIds) \<and>
    (\<forall>i \<in> set noteIds. i \<notin> n_id ` set (noteDocs (store w)))"
  moreover from this have "Note_find_in (store w) noteIds = []"
    by (auto simp: Note_find_in_def filter_empty_conv)
  ultimately show "download_zip e w noteIds = Response 404 (Message ''Notes not found'')"
    by (simp add: download_zip_def)
next
  assume "\<not> db_fails e (FindNotesIn noteIds) \<and>
    (\<exists>i \<in> set noteIds. i \<in> n_id ` set (noteDocs (store w))) \<and>
    (\<exists>i \<in> set noteIds. i \<notin> n_id ` set (noteDocs (store w)))"
  then have "noteIds \<noteq> []" "Note_find_in (store w) noteIds \<noteq> []"
    by (auto simp: Note_find_in_def filter_empty_conv)
  then show "status (download_zip e w noteIds) \<noteq> 400" "status (download_zip e w noteIds) \<noteq> 404"
    by (simp_all add: download_zip_def split: option.split)
next
  let ?found = "Note_find_in (store w) noteIds"
  assume h: "\<not> db_fails e (FindNotesIn noteIds) \<and>
    (\<exists>i \<in> set noteIds. i \<in> n_id ` set (noteDocs (store w))) \<and>
    (\<exists>i \<in> set noteIds. i \<notin> n_id ` set (noteDocs (store w)))"
    and ok: "\<forall>n \<in> set ?found. fileKey n \<noteq> [] \<longrightarrow> \<not> fetch_fails e (fileKey n)"
  from h have ne: "noteIds \<noteq> []" "?found \<noteq> []"
    by (auto simp: Note_find_in_def filter_empty_conv)
  from ok have "None \<notin> set (map (fileData e (blobs w)) ?found)"
    by (auto simp: fileData_def fetchBuffer_def)
  then obtain filesData where p: "promise_all (map (fileData e (blobs w)) ?found) = Some filesData"
    by (cases "promise_all (map (fileData e (blobs w)) ?found)") (auto simp: promise_all_None)
  then have f: "map (fileData e (blobs w)) ?found = map Some filesData"
    by (simp only: promise_all_Some)
  let ?z = "add_files filesData []"
  from h ne p have r: "download_zip e w noteIds = Response 200 (ZipBuffer ?z)"
    by (simp add: download_zip_def)
  have only: "\<exists>n \<in> set (noteDocs (store w)).
            n_id n \<in> set noteIds \<and> fst entry = title n @ ''.pdf'' \<and>
            fetchBuffer e (blobs w) (fileKey n) = Some (snd entry)"
    if "entry \<in> set ?z" for entry
  proof -
    from that add_files_entries [of filesData "[]"]
    have "Some (snd entry, fst entry) \<in> set filesData" by auto
    then show ?thesis
      unfolding staged_files [OF f] by (auto simp: Note_find_in_def)
  qed
  from archive_names [of e w noteIds ?z] r
  have names: "fst ` set ?z = (\<lambda>n. title n @ ''.pdf'') ` {n \<in> set ?found. fileKey n \<noteq> []}"
    by simp
  have every: "title n @ ''.pdf'' \<in> fst ` set ?z"
    if "n \<in> set (noteDocs (store w))" "n_id n \<in> set noteIds \<and> fileKey n \<noteq> []" for n
    unfolding names using that by (auto simp: Note_find_in_def)
  from r only every
  show "\<exists>z. download_zip e w noteIds = Response 200 (ZipBuffer z) \<and>
         (\<forall>entry \<in> set z. \<exists>n \<in> set (noteDocs (store w)).
            n_id n \<in> set noteIds \<and> fst entry = title n @ ''.pdf'' \<and>
            fetchBuffer e (blobs w) (fileKey n) = Some (snd entry)) \<and>
         (\<forall>n \<in> set (noteDocs (store w)). n_id n \<in> set noteIds \<and> fileKey n \<noteq> [] \<longrightarrow>
            title n @ ''.pdf'' \<in> fst ` set z)"
    by blast
qed

theorem archive_selection_witness:
  "download_zip calm campus [] = Response 400 (Message ''No notes selected'') \<and>
   download_zip calm campus [77, 78] = Response 404 (Message ''Notes not found'') \<and>
   status (download_zip calm campus [30, 77]) \<noteq> 404 \<and>
   download_zip calm campus [30, 77] = Response 200 (ZipBuffer [(''A.pdf'', [37, 80, 68, 70])]) \<and>
   (\<exists>z. download_zip calm campus [30, 77] = Response 200 (ZipBuffer z) \<and>
      ''A.pdf'' \<in> fst ` set z)"
proof -
  note T = archive_selection [of calm campus]
  have one: "download_zip calm campus [] = Response 400 (Message ''No notes selected'')"
    using T [of "[]"] by (rule conjunct1)
  have h2: "[77, 78] \<noteq> [] \<and> \<not> db_fails calm (FindNotesIn [77, 78]) \<and>
    (\<forall>i \<in> set [77, 78]. i \<notin> n_id ` set (noteDocs (store campus)))"
    by (simp add: example_defs)
  from T [of "[77, 78]", THEN conjunct2, THEN conjunct1] h2
  have two: "download_zip calm campus [77, 78] = Response 404 (Message ''Notes not found'')"
    by (rule mp)
  have h3: "\<not> db_fails calm (FindNotesIn [30, 77]) \<and>
    (\<exists>i \<in> set [30, 77]. i \<in> n_id ` set (noteDocs (store campus))) \<and>
    (\<exists>i \<in> set [30, 77]. i \<notin> n_id ` set (noteDocs (store campus)))"
    by (simp add: example_defs)
  have h4: "\<forall>n \<in> set (Note_find_in (store campus) [30, 77]).
          fileKey n \<noteq> [] \<longrightarrow> \<not> fetch_fails calm (fileKey n)"
    by (simp add: example_defs)
  have nA: "note_A \<in> set (noteDocs (store campus))" "n_id note_A \<in> set [30, 77] \<and> fileKey note_A \<noteq> []"
    "title note_A @ ''.pdf'' = ''A.pdf''"
    by (simp_all add: example_defs note_A_def)
  note T3 = T [of "[30, 77]", THEN conjunct2, THEN conjunct2, THEN mp, OF h3]
  from T3 have three: "status (download_zip calm campus [30, 77]) \<noteq> 404"
    by blast
  from T3 [THEN conjunct2, THEN conjunct2, THEN mp, OF h4] nA
  have four: "\<exists>z. download_zip calm campus [30, 77] = Response 200 (ZipBuffer z) \<and>
      ''A.pdf'' \<in> fst ` set z"
    by metis
  have five: "download_zip calm campus [30, 77] = Response 200 (ZipBuffer [(''A.pdf'', [37, 80, 68, 70])])"
    by (simp add: zip_defs example_defs)
  from one two three four five show ?thesis by (intro conjI)
qed

text \<open>
  C8. For every non-empty set of existing Notes with distinct titles whose blobs are in
  the bucket and can be fetched, the archive build on their identifiers returns an
  archive with exactly one entry per Note, named by the Note's title with \<open>.pdf\<close>
  appended, whose content is exactly the bytes of that Note's blob. Identifiers are
  unique in the store and the lookup is taken to answer.
\<close>

theorem archive_round_trip:
  assumes "ns \<noteq> []" and "distinct ns" and "set ns \<subseteq> set (noteDocs (store w))"
    and "unique_ids (store w)" and "distinct (map title ns)"
    and "\<forall>n \<in> set ns. fileKey n \<noteq> [] \<and> \<not> fetch_fails e (fileKey n) \<and> blobs w (fileKey n) \<noteq> None"
    and "\<not> db_fails e (FindNotesIn (map n_id ns))"
  shows "\<exists>z. download_zip e w (map n_id ns) = Response 200 (ZipBuffer z) \<and>
           length z = length ns \<and> distinct (map fst z) \<and>
           fst ` set z = (\<lambda>n. title n @ ''.pdf'') ` set ns \<and>
           (\<forall>n \<in> set ns. map_of z (title n @ ''.pdf'') = blobs w (fileKey n))"
proof -
  let ?found = "Note_find_in (store w) (map n_id ns)"
  let ?stage = "\<lambda>n. (the (blobs w (fileKey n)), title n @ ''.pdf'')"
  let ?z = "map (\<lambda>n. (title n @ ''.pdf'', the (blobs w (fileKey n)))) ?found"
  note fs = found_selected [OF assms(4,3)]
  from assms(1) fs(1) have ne: "?found \<noteq> []" "map n_id ns \<noteq> []"
    by auto
  from assms(2) fs have len: "length ?found = length ns"
    by (metis distinct_card)
  from assms(5) have "inj_on title (set ns)"
    by (simp add: distinct_map)
  then have inj: "inj_on (\<lambda>n. title n @ ''.pdf'') (set ?found)"
    unfolding fs(1) by (auto simp: inj_on_def)
  with fs(2) have dn: "distinct (map (\<lambda>n. title n @ ''.pdf'') ?found)"
    by (simp add: distinct_map)
  have "map (fileData e (blobs w)) ?found = map Some (map Some (map ?stage ?found))"
    using assms(6) unfolding fs(1) [symmetric]
    by (auto simp: fileData_def fetchBuffer_def)
  then have p: "promise_all (map (fileData e (blobs w)) ?found) = Some (map Some (map ?stage ?found))"
    by (simp only: promise_all_Some)
  from dn have "add_files (map Some (map ?stage ?found)) [] =
      [] @ map (\<lambda>(buffer, name). (name, buffer)) (map ?stage ?found)"
    by (intro add_files_distinct_names) (simp_all add: comp_def)
  then have z: "add_files (map Some (map ?stage ?found)) [] = ?z"
    by (simp add: comp_def)
  from assms(7) ne p z have r: "download_zip e w (map n_id ns) = Response 200 (ZipBuffer ?z)"
    by (simp add: download_zip_def)
  from dn have dz: "distinct (map fst ?z)"
    by (simp add: comp_def)
  have names: "fst ` set ?z = (\<lambda>n. title n @ ''.pdf'') ` set ns"
    unfolding fs(1) [symmetric] by force
  have content: "map_of ?z (title n @ ''.pdf'') = blobs w (fileKey n)" if "n \<in> set ns" for n
  proof -
    from that fs(1) have "(title n @ ''.pdf'', the (blobs w (fileKey n))) \<in> set ?z"
      by force
    with dz have "map_of ?z (title n @ ''.pdf'') = Some (the (blobs w (fileKey n)))"
      by (simp only: map_of_eq_Some_iff)
    with assms(6) that show ?thesis by auto
  qed
  from r len dz names content show ?thesis
    by (intro exI [of _ ?z]) simp
qed

theorem archive_round_trip_witness:
  "[note_A, note_B] \<noteq> [] \<and> distinct [note_A, note_B] \<and>
   set [note_A, note_B] \<subseteq> set (noteDocs (store campus)) \<and> unique_ids (store campus) \<and>
   distinct (map title [note_A, note_B]) \<and>
   \<not> db_fails calm (FindNotesIn (map n_id [note_A, note_B])) \<and>
   (\<exists>z. download_zip calm campus [30, 31] = Response 200 (ZipBuffer z) \<and>
      length z = 2 \<and> map_of z ''A.pdf'' = Some [37, 80, 68, 70] \<and>
      map_of z ''B.pdf'' = Some [37, 80])"
proof -
  have h: "[note_A, note_B] \<noteq> []" "distinct [note_A, note_B]"
    "set [note_A, note_B] \<subseteq> set (noteDocs (store campus))" "unique_ids (store campus)"
    "distinct (map title [note_A, note_B])"
    "\<forall>n \<in> set [note_A, note_B].
       fileKey n \<noteq> [] \<and> \<not> fetch_fails calm (fileKey n) \<and> blobs campus (fileKey n) \<noteq> None"
    "\<not> db_fails calm (FindNotesIn (map n_id [note_A, note_B]))"
    by (simp_all add: example_defs note_A_def note_B_def unique_ids_def)
  have v: "map n_id [note_A, note_B] = [30, 31]" "length [note_A, note_B] = 2"
    "title note_A @ ''.pdf'' = ''A.pdf''" "title note_B @ ''.pdf'' = ''B.pdf''"
    "blobs campus (fileKey note_A) = Some [37, 80, 68, 70]"
    "blobs campus (fileKey note_B) = Some [37, 80]"
    by (simp_all add: example_defs note_A_def note_B_def)
  from archive_round_trip [OF h] obtain z where
    z: "download_zip calm campus (map n_id [note_A, note_B]) = Response 200 (ZipBuffer z)"
      "length z = length [note_A, note_B]"
      "\<forall>n \<in> set [note_A, note_B]. map_of z (title n @ ''.pdf'') = blobs campus (fileKey n)"
    by blast
  from z(3) have "map_of z (title note_A @ ''.pdf'') = blobs campus (fileKey note_A)"
    "map_of z (title note_B @ ''.pdf'') = blobs campus (fileKey note_B)"
    by simp_all
  with z(1,2) have "\<exists>z. download_zip calm campus [30, 31] = Response 200 (ZipBuffer z) \<and>
      length z = 2 \<and> map_of z ''A.pdf'' = Some [37, 80, 68, 70] \<and>
      map_of z ''B.pdf'' = Some [37, 80]"
    unfolding v by blast
  with h(1-5,7) show ?thesis by (intro conjI)
qed

text \<open>
  C9. A well-formed root identifier that is absent from the metadata store gets the
  answer NotFound (404), and the call leaves the metadata store and the bucket as they
  were and does nothing to either; this holds in particular for a second call on the
  identifier of a root that a successful cascade delete has just removed (identifiers
  being unique in the store). The lookup of the root is taken to answer.
\<close>

theorem absent_root_is_not_found:
  assumes "castId e rid = Some i" and "\<not> db_fails e (FindById (root_model k) i)"
  shows "(\<not> root_present (store w) k i \<longrightarrow>
            response (deleteHierarchy e w k rid) = Response 404 (Message (not_found_message k)) \<and>
            after (deleteHierarchy e w k rid) = w \<and> events (deleteHierarchy e w k rid) = [])
       \<and> (\<forall>e0 w0. castId e0 rid = Some i \<and> unique_ids (store w0) \<and>
              status (response (deleteHierarchy e0 w0 k rid)) = 200 \<and>
              w = after (deleteHierarchy e0 w0 k rid) \<longrightarrow>
            response (deleteHierarchy e w k rid) = Response 404 (Message (not_found_message k)) \<and>
            after (deleteHierarchy e w k rid) = w \<and> events (deleteHierarchy e w k rid) = [])"
proof -
  have absent: "response (deleteHierarchy e w k rid) = Response 404 (Message (not_found_message k)) \<and>
            after (deleteHierarchy e w k rid) = w \<and> events (deleteHierarchy e w k rid) = []"
    if "\<not> root_present (store w) k i" for w
    using assms that by (simp add: deleteHierarchy_unfold)
  have "\<not> root_present (store (after (deleteHierarchy e0 w0 k rid))) k i"
    if h: "castId e0 rid = Some i" "unique_ids (store w0)"
      "status (response (deleteHierarchy e0 w0 k rid)) = 200" for e0 w0
  proof -
    from h(3) obtain j s where j: "castId e0 rid = Some j"
      and c: "cascade e0 k j (startTransaction w0) = Done s"
      and r: "deleteHierarchy e0 w0 k rid =
                send (Response 200 (Message (ok_message k)))
                (s\<lparr>committed := work s, issued := issued s @ [Committed], txn := CommitCalled\<rparr>)"
      by (rule deleteHierarchy_200)
    from j h(1) have "j = i" by simp
    from root_gone [OF _ c] h(2) have "\<not> root_present (work s) k j"
      by (simp add: startTransaction_def)
    with \<open>j = i\<close> show ?thesis
      unfolding r by (simp add: send_def)
  qed
  with absent show ?thesis by blast
qed

theorem absent_root_is_not_found_witness:
  "response (deleteHierarchy calm campus RegulationRoot ''40'') =
     Response 404 (Message ''Regulation not found'') \<and>
   after (deleteHierarchy calm campus RegulationRoot ''40'') = campus \<and>
   events (deleteHierarchy calm campus RegulationRoot ''40'') = [] \<and>
   status (response (deleteHierarchy calm campus SubjectRoot ''20'')) = 200 \<and>
   response (deleteHierarchy calm (after (deleteHierarchy calm campus SubjectRoot ''20''))
      SubjectRoot ''20'') = Response 404 (Message ''Subject not found'') \<and>
   after (deleteHierarchy calm (after (deleteHierarchy calm campus SubjectRoot ''20''))
      SubjectRoot ''20'') = after (deleteHierarchy calm campus SubjectRoot ''20'') \<and>
   events (deleteHierarchy calm (after (deleteHierarchy calm campus SubjectRoot ''20''))
      SubjectRoot ''20'') = []"
proof -
  have c40: "castId calm ''40'' = Some 40" and c20: "castId calm ''20'' = Some 20"
    by (simp_all add: example_defs)
  have ok40: "\<not> db_fails calm (FindById (root_model RegulationRoot) 40)"
    and ok20: "\<not> db_fails calm (FindById (root_model SubjectRoot) 20)"
    by (simp_all add: example_defs)
  have absent: "\<not> root_present (store campus) RegulationRoot 40"
    by (simp add: example_defs)
  have first: "status (response (deleteHierarchy calm campus SubjectRoot ''20'')) = 200"
    by (simp add: route_defs example_defs)
  have u: "unique_ids (store campus)"
    by (simp add: unique_ids_def example_defs)
  from absent_root_is_not_found [OF c40 ok40, of campus] absent
  have one: "response (deleteHierarchy calm campus RegulationRoot ''40'') =
       Response 404 (Message ''Regulation not found'') \<and>
     after (deleteHierarchy calm campus RegulationRoot ''40'') = campus \<and>
     events (deleteHierarchy calm campus RegulationRoot ''40'') = []"
    by simp
  from absent_root_is_not_found [OF c20 ok20,
      of "after (deleteHierarchy calm campus SubjectRoot ''20'')"] c20 u first
  have two: "response (deleteHierarchy calm (after (deleteHierarchy calm campus SubjectRoot ''20''))
        SubjectRoot ''20'') = Response 404 (Message ''Subject not found'') \<and>
     after (deleteHierarchy calm (after (deleteHierarchy calm campus SubjectRoot ''20''))
        SubjectRoot ''20'') = after (deleteHierarchy calm campus SubjectRoot ''20'') \<and>
     events (deleteHierarchy calm (after (deleteHierarchy calm campus SubjectRoot ''20''))
        SubjectRoot ''20'') = []"
    by (elim conjE allE [of _ calm] allE [of _ campus]) simp
  from one two first show ?thesis by simp
qed

text \<open>
  C10. No response of the admin faculty routes (list, create, update) carries the stored
  password hash: no faculty document in a response has a \<open>password\<close> field, and the
  response is the same when every stored hash, the hash function and the password of
  the request body are blanked (for the create route, which refuses an empty password,
  replaced by another non-empty one). The response depends on a password only through
  that refusal.
\<close>

theorem faculty_responses_hide_password:
  "(\<forall>d \<in> set (documents_of (response (admin_faculty e w q))). ''password'' \<notin> fst ` set d) \<and>
   response (admin_faculty e w q) =
     response (admin_faculty (redact_env e) (w\<lparr>store := redact_db (store w)\<rparr>) (redact_request q))"
proof
  show "\<forall>d \<in> set (documents_of (response (admin_faculty e w q))). ''password'' \<notin> fst ` set d"
    using admin_faculty_documents by blast
  show "response (admin_faculty e w q) =
     response (admin_faculty (redact_env e) (w\<lparr>store := redact_db (store w)\<rparr>) (redact_request q))"
  proof (cases q)
    case GET_faculty
    with list_faculty_redacted [of e w] show ?thesis by simp
  next
    case (POST_faculty b)
    with create_faculty_redacted [of e w b] show ?thesis by simp
  next
    case (PUT_faculty rid b)
    with update_faculty_redacted [of e w rid b] show ?thesis by simp
  qed
qed

theorem faculty_responses_hide_password_witness:
  "documents_of (response (admin_faculty calm campus (PUT_faculty ''40'' new_password))) =
     [[(''_id'', JId 40), (''name'', JStr ''Rao''), (''email'', JStr ''rao@kithab.in''),
       (''employeeId'', JStr ''E1''), (''designation'', JStr ''Dean''),
       (''uploadedNotes'', JIds [30, 31]), (''createdAt'', JNum 0)]] \<and>
   ''password'' \<notin> fst ` set [(''_id'', JId 40), (''name'', JStr ''Rao''),
       (''email'', JStr ''rao@kithab.in''), (''employeeId'', JStr ''E1''),
       (''designation'', JStr ''Dean''), (''uploadedNotes'', JIds [30, 31]),
       (''createdAt'', JNum 0)] \<and>
   response (admin_faculty calm campus (PUT_faculty ''40'' new_password)) =
     response (admin_faculty (redact_env calm) (campus\<lparr>store := redact_db (store campus)\<rparr>)
        (redact_request (PUT_faculty ''40'' new_password)))"
proof -
  have docs: "documents_of (response (admin_faculty calm campus (PUT_faculty ''40'' new_password))) =
     [[(''_id'', JId 40), (''name'', JStr ''Rao''), (''email'', JStr ''rao@kithab.in''),
       (''employeeId'', JStr ''E1''), (''designation'', JStr ''Dean''),
       (''uploadedNotes'', JIds [30, 31]), (''createdAt'', JNum 0)]]"
    by (simp add: update_faculty_response example_defs new_password_def apply_body_def
          toObject_def delete_key_def)
  note T = faculty_responses_hide_password [of calm campus "PUT_faculty ''40'' new_password"]
  from T [THEN conjunct1, unfolded docs]
  have "''password'' \<notin> fst ` set [(''_id'', JId 40), (''name'', JStr ''Rao''),
       (''email'', JStr ''rao@kithab.in''), (''employeeId'', JStr ''E1''),
       (''designation'', JStr ''Dean''), (''uploadedNotes'', JIds [30, 31]),
       (''createdAt'', JNum 0)]"
    by simp
  with docs T [THEN conjunct2] show ?thesis by (intro conjI)
qed

end
